theory Spec2Isabelle
  imports Complex_Main
begin

section \<open>Errors and numpy primitives\<close>

text \<open>
  The Python exceptions the modelled code can raise.  \<open>AttributeError\<close> is what
  \<open>XRet.T\<close> raises when \<open>XRet\<close> is still \<open>None\<close>, \<open>LinAlgError\<close> what
  \<open>numpy.linalg.eigh\<close> raises when it does not converge.
\<close>

datatype error = IndexError | ValueError | AttributeError | LinAlgError

text \<open>
  A matrix is the list of its rows.  Input matrices (point clouds, distance matrices,
  persistence diagrams) hold finite numbers and are modelled over \<open>real\<close>: arithmetic is
  exact, rounding is not modelled.
\<close>

type_synonym matrix = "real list list"

definition is_matrix :: "nat \<Rightarrow> nat \<Rightarrow> 'a list list \<Rightarrow> bool" where
  "is_matrix r c A = (length A = r \<and> list_all (\<lambda>row. length row = c) A)"

text \<open>
  The transpose \<open>A.T\<close> and the columns of a matrix.  A numpy array is rectangular, so
  a column index below \<open>ncols\<close> is an index of every row.  A matrix with no row is
  taken to have no column.
\<close>

definition ncols :: "'a list list \<Rightarrow> nat" where
  "ncols A = (case A of [] \<Rightarrow> 0 | row # _ \<Rightarrow> length row)"

definition column :: "'a list list \<Rightarrow> nat \<Rightarrow> 'a list" where
  "column A j = map (\<lambda>row. row ! j) A"

definition np_T :: "'a list list \<Rightarrow> 'a list list" where
  "np_T A = map (column A) [0..<ncols A]"

text \<open>
  \<open>np.argmax\<close> on a one-dimensional array: the index of the first occurrence of the
  maximum; an empty array raises ValueError.
\<close>

fun argmax :: "'a::linorder list \<Rightarrow> nat" where
  "argmax [] = 0"
| "argmax [x] = 0"
| "argmax (x # y # ys) = (let j = argmax (y # ys) in if (y # ys) ! j \<le> x then 0 else Suc j)"

definition np_argmax :: "'a::linorder list \<Rightarrow> error + nat" where
  "np_argmax xs = (if xs = [] then Inl ValueError else Inr (argmax xs))"

text \<open>\<open>np.minimum(a, b)\<close> on two arrays of the same shape.\<close>

definition np_minimum :: "real list \<Rightarrow> real list \<Rightarrow> real list" where
  "np_minimum xs ys = map2 min xs ys"

text \<open>
  \<open>for i in range(a, b)\<close> over a body that may raise: the loop threads the state and
  stops at the first error.
\<close>

fun for_range :: "nat list \<Rightarrow> (nat \<Rightarrow> 's \<Rightarrow> error + 's) \<Rightarrow> 's \<Rightarrow> error + 's" where
  "for_range [] body s = Inr s"
| "for_range (i # is) body s =
     (case body i s of Inl e \<Rightarrow> Inl e | Inr s' \<Rightarrow> for_range is body s')"

section \<open>Furthest-point sampling\<close>

text \<open>
  \<open>getCSM(X, Y)\<close>: Euclidean cross-distance by the squared-norm expansion, negative
  squared distances set to zero before the square root.
\<close>

definition sumsq :: "real list \<Rightarrow> real" where
  "sumsq x = sum_list (map (\<lambda>a. a\<^sup>2) x)"

definition dot :: "real list \<Rightarrow> real list \<Rightarrow> real" where
  "dot x y = sum_list (map2 (*) x y)"

definition getCSM :: "matrix \<Rightarrow> matrix \<Rightarrow> matrix" where
  "getCSM X Y =
     map (\<lambda>x. map (\<lambda>y. let C = sumsq x + sumsq y - 2 * dot x y
                         in sqrt (if C < 0 then 0 else C)) Y) X"

text \<open>
  \<open>getGreedyPermDM(D, M)\<close>.  The loop state is \<open>(perm, lambdas, ds)\<close>.
  \<open>D[0, :]\<close> raises IndexError on a matrix with no row, \<open>D[idx, :]\<close> when \<open>idx\<close>
  is not a row index.  The landmark count is a natural number (\<open>np.zeros\<close> raises on a
  negative one).  The result records hold the entries of the returned dictionaries.
\<close>

definition greedy_dm_body ::
    "matrix \<Rightarrow> nat \<Rightarrow> nat list \<times> real list \<times> real list
       \<Rightarrow> error + nat list \<times> real list \<times> real list" where
  "greedy_dm_body D i s =
     (case s of (perm, lambdas, ds) \<Rightarrow>
        (case np_argmax ds of
           Inl e \<Rightarrow> Inl e
         | Inr idx \<Rightarrow>
             if idx < length D
             then Inr (perm[i := idx], lambdas[i := ds ! idx], np_minimum ds (D ! idx))
             else Inl IndexError))"

definition greedy_euclid_body ::
    "matrix \<Rightarrow> nat \<Rightarrow> nat list \<times> real list \<times> real list \<times> matrix
       \<Rightarrow> error + nat list \<times> real list \<times> real list \<times> matrix" where
  "greedy_euclid_body X i s =
     (case s of (perm, lambdas, ds, D) \<Rightarrow>
        (case np_argmax ds of
           Inl e \<Rightarrow> Inl e
         | Inr idx \<Rightarrow>
             if idx < length X
             then (let thisds = concat (getCSM [X ! idx] X)
                   in Inr (perm[i := idx], lambdas[i := ds ! idx],
                           np_minimum ds thisds, D[i := thisds]))
             else Inl IndexError))"

record greedy_perm =
  perm :: "nat list"
  lambdas :: "real list"

record greedy_dm = greedy_perm +
  DLandmarks :: matrix

record greedy_euclid = greedy_perm +
  res_Y :: matrix
  res_D :: matrix

definition getGreedyPermDM :: "matrix \<Rightarrow> nat \<Rightarrow> error + greedy_dm" where
  "getGreedyPermDM D M =
     (if D = [] then Inl IndexError
      else
        (case for_range [1..<M] (greedy_dm_body D) (replicate M 0, replicate M 0, D ! 0) of
           Inl e \<Rightarrow> Inl e
         | Inr (perm', lambdas', ds) \<Rightarrow>
             Inr \<lparr>perm = perm', lambdas = lambdas', DLandmarks = map (\<lambda>p. D ! p) perm'\<rparr>))"

text \<open>
  \<open>getGreedyPermEuclidean(X, M)\<close>.  The loop state is \<open>(perm, lambdas, ds, D)\<close>.
  \<open>X[0, :]\<close> raises IndexError on an empty point cloud, and \<open>D[0, :] = ds\<close> raises it
  when \<open>M = 0\<close>, \<open>D\<close> having no row then.
\<close>

definition getGreedyPermEuclidean :: "matrix \<Rightarrow> nat \<Rightarrow> error + greedy_euclid" where
  "getGreedyPermEuclidean X M =
     (if X = [] then Inl IndexError
      else
        (let N = length X;
             ds = concat (getCSM [X ! 0] X)
         in if M = 0 then Inl IndexError
            else
              (case for_range [1..<M] (greedy_euclid_body X)
                      (replicate M 0, replicate M 0, ds, (replicate M (replicate N 0))[0 := ds]) of
                 Inl e \<Rightarrow> Inl e
               | Inr (perm', lambdas', ds', D) \<Rightarrow>
                   Inr \<lparr>perm = perm', lambdas = lambdas',
                        res_Y = map (\<lambda>p. X ! p) perm', res_D = D\<rparr>)))"

section \<open>Cover radius\<close>

text \<open>
  A persistence diagram is the list of its (birth, death) rows.  A cocycle is the list
  of its rows \<open>[i, j, value]\<close>.  The persistence computation itself (\<open>ripser\<close>) is
  outside the repository: its diagram \<open>dgm1\<close> and its list of cocycles are inputs here.
\<close>

type_synonym dgm = "(real \<times> real) list"
type_synonym cocycle = "(nat \<times> nat \<times> int) list"

text \<open>Python and numpy indexing: a negative index counts from the end.\<close>

definition py_index :: "'a list \<Rightarrow> int \<Rightarrow> error + 'a" where
  "py_index xs i =
     (let n = int (length xs); j = (if i < 0 then n + i else i)
      in if 0 \<le> j \<and> j < n then Inr (xs ! nat j) else Inl IndexError)"

text \<open>
  \<open>np.argsort\<close>: the indices in ascending order of their values; indices of equal
  values are kept in index order here.
\<close>

definition np_argsort :: "real list \<Rightarrow> nat list" where
  "np_argsort xs = sort_key (\<lambda>i. xs ! i) [0..<length xs]"

text \<open>\<open>np.max\<close> of a one-dimensional array; an empty one raises ValueError.\<close>

definition np_max :: "real list \<Rightarrow> error + real" where
  "np_max xs = (if xs = [] then Inl ValueError else Inr (Max (set xs)))"

text \<open>
  \<open>coverage = np.max(np.min(dist_land_data, 1))\<close>, with \<open>dist_land_data\<close> holding one row
  per landmark and one column per data point: axis 1 runs along a row, so the inner
  minimum is taken over the data points, for each landmark.
\<close>

definition coverage :: "matrix \<Rightarrow> error + real" where
  "coverage dist_land_data =
     (if list_ex (\<lambda>row. row = []) dist_land_data then Inl ValueError
      else np_max (map (\<lambda>row. Min (set row)) dist_land_data))"

text \<open>
  The coverage radius in the words of the specification, for comparison: the maximum
  over the data points (the columns) of the minimum over the landmarks.
\<close>

definition coverage_spec :: "matrix \<Rightarrow> error + real" where
  "coverage_spec dist_land_data =
     (if dist_land_data = [] then Inl ValueError
      else np_max (map (\<lambda>j. Min (set (column dist_land_data j))) [0..<ncols dist_land_data]))"

text \<open>
  Modelled from the spec: \<open>add_cocycles\<close> of \<open>TDAUtils\<close>, which is not among the
  sources.  The cocycles are summed mod 2: the values of the rows with the same vertex
  pair are added, and the pairs whose sum is zero mod 2 are dropped.
\<close>

definition add_cocycles :: "cocycle \<Rightarrow> cocycle \<Rightarrow> cocycle" where
  "add_cocycles c1 c2 =
     (let c = c1 @ c2;
          keys = remdups (map (\<lambda>(i, j, v). (i, j)) c);
          summed = map (\<lambda>(i, j). (i, j,
                      sum_list (map (\<lambda>(i', j', v). v) (filter (\<lambda>(i', j', v). (i', j') = (i, j)) c)) mod 2))
                     keys
      in filter (\<lambda>(i, j, v). v \<noteq> 0) summed)"

text \<open>
  Steps 2 and 3 of \<open>dreimac.ProjCoords\<close>, after the call of \<open>ripser\<close>: the diagram
  is halved, the classes are sorted by persistence, the classes of \<open>cocycle_idx\<close> are
  added up and the radius is interpolated.  The loop over \<open>cocycle_idx\<close> starts from
  \<open>cohomdeath = -inf\<close> and \<open>cohombirth = inf\<close>; the statement before it reads
  \<open>cocycle_idx[0]\<close>, so the loop runs at least once and its first pass replaces both
  infinities by the values of the first class.
\<close>

definition select_class :: "dgm \<Rightarrow> cocycle list \<Rightarrow> nat list \<Rightarrow> int \<Rightarrow> error + nat" where
  "select_class dgm1 cocycles idx_p1 c =
     (case py_index idx_p1 c of
        Inl e \<Rightarrow> Inl e
      | Inr j \<Rightarrow> if j < length cocycles \<and> j < length dgm1 then Inr j else Inl IndexError)"

fun add_classes ::
    "dgm \<Rightarrow> cocycle list \<Rightarrow> nat list \<Rightarrow> int list \<Rightarrow> cocycle \<times> real \<times> real
       \<Rightarrow> error + cocycle \<times> real \<times> real" where
  "add_classes dgm1 cocycles idx_p1 [] s = Inr s"
| "add_classes dgm1 cocycles idx_p1 (c # cs) (cocycle, cohomdeath, cohombirth) =
     (case select_class dgm1 cocycles idx_p1 c of
        Inl e \<Rightarrow> Inl e
      | Inr j \<Rightarrow>
          add_classes dgm1 cocycles idx_p1 cs
            (add_cocycles cocycle (cocycles ! j),
             max cohomdeath (fst (dgm1 ! j)),
             min cohombirth (snd (dgm1 ! j))))"

text \<open>The local variables of steps 2 and 3 that the later steps and the result use.\<close>

record radius_result =
  rr_dgm1 :: dgm
  rr_idx_p1 :: "nat list"
  rr_cocycle :: cocycle
  rr_cohomdeath :: real
  rr_cohombirth :: real
  rr_coverage :: real
  rr_r_cover :: real

definition dreimac_ProjCoords_radius ::
    "dgm \<Rightarrow> cocycle list \<Rightarrow> int list \<Rightarrow> matrix \<Rightarrow> real \<Rightarrow> error + radius_result" where
  "dreimac_ProjCoords_radius dgms1 cocycles cocycle_idx dist_land_data perc =
     (let dgm1 = map (\<lambda>(b, d). (b / 2, d / 2)) dgms1;
          idx_p1 = np_argsort (map (\<lambda>(b, d). b - d) dgm1)
      in case cocycle_idx of
           [] \<Rightarrow> Inl IndexError
         | c0 # cs \<Rightarrow>
             (case select_class dgm1 cocycles idx_p1 c0 of
                Inl e \<Rightarrow> Inl e
              | Inr j0 \<Rightarrow>
                  (case add_classes dgm1 cocycles idx_p1 cs
                          (add_cocycles [] (cocycles ! j0), fst (dgm1 ! j0), snd (dgm1 ! j0)) of
                     Inl e \<Rightarrow> Inl e
                   | Inr (cocycle, cohomdeath, cohombirth) \<Rightarrow>
                       (case coverage dist_land_data of
                          Inl e \<Rightarrow> Inl e
                        | Inr cov \<Rightarrow>
                            Inr \<lparr>rr_dgm1 = dgm1, rr_idx_p1 = idx_p1, rr_cocycle = cocycle,
                                 rr_cohomdeath = cohomdeath, rr_cohombirth = cohombirth,
                                 rr_coverage = cov,
                                 rr_r_cover = (1 - perc) * max cohomdeath cov + perc * cohombirth\<rparr>))))"

text \<open>
  Steps 2 and 3 of \<open>ProjCoords\<close> in the top-level \<open>ProjectiveCoordinates.py\<close>: the
  most persistent class alone, the diagram as \<open>ripser\<close> returned it.
\<close>

definition ProjCoords_radius :: "dgm \<Rightarrow> cocycle list \<Rightarrow> matrix \<Rightarrow> real \<Rightarrow> error + radius_result" where
  "ProjCoords_radius dgm1 cocycles dist_land_data perc =
     (case np_argmax (map (\<lambda>(b, d). d - b) dgm1) of
        Inl e \<Rightarrow> Inl e
      | Inr idx_mp1 \<Rightarrow>
          if idx_mp1 < length cocycles
          then (case coverage dist_land_data of
                  Inl e \<Rightarrow> Inl e
                | Inr cov \<Rightarrow>
                    Inr \<lparr>rr_dgm1 = dgm1, rr_idx_p1 = [idx_mp1], rr_cocycle = cocycles ! idx_mp1,
                         rr_cohomdeath = fst (dgm1 ! idx_mp1), rr_cohombirth = snd (dgm1 ! idx_mp1),
                         rr_coverage = cov,
                         rr_r_cover = (1 - perc) * max (fst (dgm1 ! idx_mp1)) cov
                                        + perc * snd (dgm1 ! idx_mp1)\<rparr>)
          else Inl IndexError)"

section \<open>Floating-point values that may be undefined\<close>

text \<open>
  From the normalisation of the partition of unity on, a value can be \<open>nan\<close> or
  infinite: numpy does not raise on \<open>0/0\<close>, on \<open>x/0\<close> or on the square root of a
  negative number, it returns \<open>nan\<close> or \<open>inf\<close> and goes on.  Such a value is \<open>None\<close>
  here and a finite one is \<open>Some x\<close>.  Every operation the code applies afterwards
  (sum, product, absolute value, square, square root, \<open>arccos\<close>, division by a
  value that is finite or \<open>nan\<close>) gives a non-finite result on a non-finite operand,
  so \<open>None\<close> is absorbing.
\<close>

type_synonym npfloat = "real option"

fun np_add :: "npfloat \<Rightarrow> npfloat \<Rightarrow> npfloat" where
  "np_add (Some a) (Some b) = Some (a + b)"
| "np_add _ _ = None"

fun np_sub :: "npfloat \<Rightarrow> npfloat \<Rightarrow> npfloat" where
  "np_sub (Some a) (Some b) = Some (a - b)"
| "np_sub _ _ = None"

fun np_mul :: "npfloat \<Rightarrow> npfloat \<Rightarrow> npfloat" where
  "np_mul (Some a) (Some b) = Some (a * b)"
| "np_mul _ _ = None"

fun np_div :: "npfloat \<Rightarrow> npfloat \<Rightarrow> npfloat" where
  "np_div (Some a) (Some b) = (if b = 0 then None else Some (a / b))"
| "np_div _ _ = None"

fun np_sqrt :: "npfloat \<Rightarrow> npfloat" where
  "np_sqrt (Some a) = (if a < 0 then None else Some (sqrt a))"
| "np_sqrt None = None"

fun np_abs :: "npfloat \<Rightarrow> npfloat" where
  "np_abs (Some a) = Some \<bar>a\<bar>"
| "np_abs None = None"

fun np_arccos :: "npfloat \<Rightarrow> npfloat" where
  "np_arccos (Some a) = (if -1 \<le> a \<and> a \<le> 1 then Some (arccos a) else None)"
| "np_arccos None = None"

definition np_sum :: "npfloat list \<Rightarrow> npfloat" where
  "np_sum xs = foldr np_add xs (Some 0)"

definition np_mean :: "npfloat list \<Rightarrow> npfloat" where
  "np_mean xs = np_div (np_sum xs) (Some (real (length xs)))"

definition np_dot :: "npfloat list \<Rightarrow> npfloat list \<Rightarrow> npfloat" where
  "np_dot x y = np_sum (map2 np_mul x y)"

section \<open>Partition of unity and classifying map\<close>

text \<open>
  Step 4 of \<open>ProjCoords\<close> (the same statements in both files): the balls
  \<open>U = dist_land_data < r_cover\<close>, the bumps \<open>phi\<close>, the partition of unity
  \<open>varphi = phi / np.sum(phi, 0)[None, :]\<close> and \<open>ball_indx = np.argmax(U, 0)\<close>.
  Nothing is checked before the division.
\<close>

definition balls :: "matrix \<Rightarrow> real \<Rightarrow> bool list list" where
  "balls dist_land_data r_cover = map (map (\<lambda>d. d < r_cover)) dist_land_data"

definition bumps :: "matrix \<Rightarrow> real \<Rightarrow> matrix" where
  "bumps dist_land_data r_cover =
     map (map (\<lambda>d. if d < r_cover then r_cover - d else 0)) dist_land_data"

definition column_sums :: "matrix \<Rightarrow> real list" where
  "column_sums phi = map (\<lambda>j. sum_list (column phi j)) [0..<ncols phi]"

definition partition_of_unity :: "matrix \<Rightarrow> real \<Rightarrow> npfloat list list" where
  "partition_of_unity dist_land_data r_cover =
     (let phi = bumps dist_land_data r_cover;
          total = column_sums phi
      in map (\<lambda>row. map2 (\<lambda>p t. np_div (Some p) (Some t)) row total) phi)"

definition ball_indx :: "matrix \<Rightarrow> real \<Rightarrow> error + nat list" where
  "ball_indx dist_land_data r_cover =
     (let U = balls dist_land_data r_cover
      in if U = [] then Inl ValueError
         else Inr (map (\<lambda>j. argmax (column U j)) [0..<ncols U]))"

text \<open>
  Step 5: the matrix of transition signs and the classifying map.  An index of the
  cocycle that is not a landmark raises IndexError, and so does a row index
  \<open>i < n_data\<close> beyond the rows of \<open>class_map\<close>.
\<close>

definition cocycle_matrix :: "nat \<Rightarrow> cocycle \<Rightarrow> error + matrix" where
  "cocycle_matrix n_landmarks c =
     (if list_ex (\<lambda>(a, b, v). n_landmarks \<le> a \<or> n_landmarks \<le> b) c then Inl IndexError
      else
        (let ones = replicate n_landmarks (replicate n_landmarks (1::real));
             m1 = fold (\<lambda>(a, b, v) m. m[a := (m ! a)[b := -1]]) c ones
         in Inr (fold (\<lambda>(a, b, v) m. m[b := (m ! b)[a := -1]]) c m1)))"

text \<open>What the matrix of transition signs is: square, with entries 1 and -1.\<close>

definition sign_matrix :: "nat \<Rightarrow> matrix \<Rightarrow> bool" where
  "sign_matrix L m = (is_matrix L L m \<and> (\<forall>a < L. \<forall>b < L. m ! a ! b = 1 \<or> m ! a ! b = - 1))"

definition sign_row :: "matrix \<Rightarrow> nat list \<Rightarrow> nat \<Rightarrow> npfloat list list \<Rightarrow> error + npfloat list list" where
  "sign_row cm indx i class_map =
     (if i < length class_map \<and> i < length indx \<and> indx ! i < length cm
      then Inr (class_map[i := map2 (\<lambda>v s. np_mul v (Some s)) (class_map ! i) (cm ! (indx ! i))])
      else Inl IndexError)"

definition classifying_map ::
    "nat \<Rightarrow> nat \<Rightarrow> cocycle \<Rightarrow> matrix \<Rightarrow> real \<Rightarrow> error + npfloat list list" where
  "classifying_map n_data n_landmarks c dist_land_data r_cover =
     (let varphi = partition_of_unity dist_land_data r_cover
      in case ball_indx dist_land_data r_cover of
           Inl e \<Rightarrow> Inl e
         | Inr indx \<Rightarrow>
             (case cocycle_matrix n_landmarks c of
                Inl e \<Rightarrow> Inl e
              | Inr cm \<Rightarrow>
                  for_range [0..<n_data] (sign_row cm indx) (map (map np_sqrt) (np_T varphi))))"

section \<open>Principal projective component analysis\<close>

text \<open>
  \<open>numpy.linalg.eigh\<close> is outside the repository: the function \<open>eigh\<close> below stands
  for it and gives the matrix of eigenvectors, one per column, in ascending order of
  the eigenvalues (the eigenvalues themselves are not used).  It returns a square matrix
  of the size of its argument; the products raise ValueError on any other shape.

  One pass of the loop body, the same statements in every loop of both files:
  \<open>U = fliplr(eigh(X X\<^sup>T))\<close>, the variance entry
  \<open>mean((pi/2 - arccos\<bar>U[:, -1] \<cdot> X\<bar>)\<^sup>2)\<close>, \<open>Y = U\<^sup>T X\<close>, the dropped last row
  \<open>y\<close>, and \<open>X = Y[0:-1, :] / sqrt(1 - \<bar>y\<bar>\<^sup>2)\<close>.  The argument of the square
  root is used as it is.
\<close>

definition renorm :: "npfloat \<Rightarrow> npfloat \<Rightarrow> npfloat" where
  "renorm v y = np_div v (np_sqrt (np_sub (Some 1) (np_mul (np_abs y) (np_abs y))))"

definition PPCA_step ::
    "(npfloat list list \<Rightarrow> error + npfloat list list) \<Rightarrow> npfloat list list
       \<Rightarrow> error + npfloat \<times> npfloat list list" where
  "PPCA_step eigh X =
     (case eigh (map (\<lambda>a. map (np_dot a) X) X) of
        Inl e \<Rightarrow> Inl e
      | Inr U0 \<Rightarrow>
          if X = [] \<or> \<not> is_matrix (length X) (length X) U0 then Inl ValueError
          else
            (let U = map rev U0;
                 cols = np_T X;
                 u = map last U;
                 var = np_mean (map (\<lambda>x. let a = np_sub (Some (pi / 2))
                                                       (np_arccos (np_abs (np_dot u x)))
                                          in np_mul a a) cols);
                 Y = map (\<lambda>ucol. map (np_dot ucol) cols) (np_T U);
                 y = last Y
             in Inr (var, map (\<lambda>row. map2 renorm row y) (butlast Y))))"

record ppca_result =
  res_variance :: "npfloat list"
  res_X :: "npfloat list list"

record ppca_root_result = ppca_result +
  res_Z :: "npfloat list list"

text \<open>
  \<open>PPCA\<close> of \<open>dreimac/ProjectiveCoordinates.py\<close>.  The loop state is
  \<open>(X, variance, XRet)\<close>; \<open>XRet\<close> starts as \<open>None\<close> and is assigned in the pass
  \<open>i == n_dim - proj_dim - 2\<close>, a comparison of integers.  An array with no column
  makes \<open>np.zeros(X.shape[0] - 1)\<close> raise ValueError.
\<close>

definition dreimac_PPCA_body ::
    "(npfloat list list \<Rightarrow> error + npfloat list list) \<Rightarrow> nat \<Rightarrow> nat \<Rightarrow> nat
       \<Rightarrow> npfloat list list \<times> npfloat list \<times> npfloat list list option
       \<Rightarrow> error + npfloat list list \<times> npfloat list \<times> npfloat list list option" where
  "dreimac_PPCA_body eigh n_dim proj_dim i s =
     (case s of (X, variance, XRet) \<Rightarrow>
        (case PPCA_step eigh X of
           Inl e \<Rightarrow> Inl e
         | Inr (v, X') \<Rightarrow>
             Inr (X', variance[n_dim - 2 - i := v],
                  if int i = int n_dim - int proj_dim - 2 then Some X' else XRet)))"

definition dreimac_PPCA ::
    "(npfloat list list \<Rightarrow> error + npfloat list list) \<Rightarrow> npfloat list list \<Rightarrow> nat
       \<Rightarrow> error + ppca_result" where
  "dreimac_PPCA eigh class_map proj_dim =
     (let X = np_T class_map;
          n_dim = ncols class_map
      in if n_dim = 0 then Inl ValueError
         else
           (case for_range [0..<n_dim - 1] (dreimac_PPCA_body eigh n_dim proj_dim)
                   (X, replicate (n_dim - 1) (Some 0), None) of
              Inl e \<Rightarrow> Inl e
            | Inr (X', variance, XRet) \<Rightarrow>
                (case XRet of
                   None \<Rightarrow> Inl AttributeError
                 | Some XR \<Rightarrow> Inr \<lparr>res_variance = variance, res_X = np_T XR\<rparr>)))"

text \<open>
  \<open>PPCA\<close> of the top-level \<open>ProjectiveCoordinates.py\<close>: a main loop of
  \<open>n_dim - proj_dim - 1\<close> passes on \<open>X\<close>, then a coordinates loop of \<open>proj_dim\<close>
  passes on a copy \<open>Z\<close>; \<open>X\<close> is returned as it is after the main loop, not
  transposed.  \<open>variance[proj_dim - j - 1]\<close> raises IndexError beyond the array.
\<close>

definition PPCA_main_body ::
    "(npfloat list list \<Rightarrow> error + npfloat list list) \<Rightarrow> nat \<Rightarrow> nat
       \<Rightarrow> npfloat list list \<times> npfloat list
       \<Rightarrow> error + npfloat list list \<times> npfloat list" where
  "PPCA_main_body eigh n_dim i s =
     (case s of (X, variance) \<Rightarrow>
        (case PPCA_step eigh X of
           Inl e \<Rightarrow> Inl e
         | Inr (v, X') \<Rightarrow> Inr (X', variance[n_dim - 2 - i := v])))"

definition PPCA_coords_body ::
    "(npfloat list list \<Rightarrow> error + npfloat list list) \<Rightarrow> nat \<Rightarrow> nat
       \<Rightarrow> npfloat list list \<times> npfloat list
       \<Rightarrow> error + npfloat list list \<times> npfloat list" where
  "PPCA_coords_body eigh proj_dim j s =
     (case s of (Z, variance) \<Rightarrow>
        (case PPCA_step eigh Z of
           Inl e \<Rightarrow> Inl e
         | Inr (v, Z') \<Rightarrow>
             if proj_dim - j - 1 < length variance
             then Inr (Z', variance[proj_dim - j - 1 := v])
             else Inl IndexError))"

definition PPCA ::
    "(npfloat list list \<Rightarrow> error + npfloat list list) \<Rightarrow> npfloat list list \<Rightarrow> nat
       \<Rightarrow> error + ppca_root_result" where
  "PPCA eigh class_map proj_dim =
     (let X = np_T class_map;
          n_dim = ncols class_map;
          n_iter = n_dim - proj_dim - 1
      in if n_dim = 0 then Inl ValueError
         else
           (case for_range [0..<n_iter] (PPCA_main_body eigh n_dim)
                   (X, replicate (n_dim - 1) (Some 0)) of
              Inl e \<Rightarrow> Inl e
            | Inr (X', variance) \<Rightarrow>
                (case for_range [0..<proj_dim] (PPCA_coords_body eigh proj_dim) (X', variance) of
                   Inl e \<Rightarrow> Inl e
                 | Inr (Z, variance') \<Rightarrow>
                     Inr \<lparr>res_variance = variance', res_X = X', res_Z = Z\<rparr>)))"

section \<open>The pipeline\<close>

text \<open>
  \<open>ProjCoords\<close> of \<open>dreimac/ProjectiveCoordinates.py\<close> on a distance matrix
  (\<open>distance_matrix = True\<close>; the other branch calls \<open>get_greedy_perm\<close> and
  \<open>getSSM\<close> of \<open>CSMSSMTools\<close>, which is not among the sources).  \<open>rips\<close> stands for
  \<open>ripser\<close>: from the landmark distance matrix it gives the diagram \<open>dgms[1]\<close> and
  the cocycles \<open>cocycles_[1]\<close>.  \<open>P[perm, :][:, perm]\<close> raises IndexError when a
  landmark is not a column of \<open>P\<close>.
\<close>

record projcoords_result =
  pc_variance :: "npfloat list"
  pc_X :: "npfloat list list"
  pc_cocycle :: "(nat \<times> nat) list"
  pc_dist_land_land :: matrix
  pc_dist_land_data :: matrix
  pc_dgm1 :: dgm
  pc_idx_p1 :: "nat list"
  pc_perm :: "nat list"

definition dreimac_ProjCoords ::
    "(matrix \<Rightarrow> dgm \<times> cocycle list) \<Rightarrow> (npfloat list list \<Rightarrow> error + npfloat list list)
       \<Rightarrow> matrix \<Rightarrow> nat \<Rightarrow> real \<Rightarrow> int list \<Rightarrow> nat \<Rightarrow> error + projcoords_result" where
  "dreimac_ProjCoords rips eigh P n_landmarks perc cocycle_idx proj_dim =
     (let n_data = length P
      in case getGreedyPermDM P n_landmarks of
           Inl e \<Rightarrow> Inl e
         | Inr res \<Rightarrow>
             (let dist_land_data = DLandmarks res
              in if list_ex (\<lambda>p. ncols P \<le> p) (perm res) then Inl IndexError
                 else
                   (let dist_land_land = map (\<lambda>row. map (\<lambda>p. row ! p) (perm res)) dist_land_data;
                        dgms1 = fst (rips dist_land_land);
                        cocycles = snd (rips dist_land_land)
                    in case dreimac_ProjCoords_radius dgms1 cocycles cocycle_idx dist_land_data perc of
                         Inl e \<Rightarrow> Inl e
                       | Inr rr \<Rightarrow>
                           (case classifying_map n_data n_landmarks (rr_cocycle rr)
                                   dist_land_data (rr_r_cover rr) of
                              Inl e \<Rightarrow> Inl e
                            | Inr class_map \<Rightarrow>
                                (case dreimac_PPCA eigh class_map proj_dim of
                                   Inl e \<Rightarrow> Inl e
                                 | Inr res' \<Rightarrow>
                                     Inr \<lparr>pc_variance = res_variance res', pc_X = res_X res',
                                          pc_cocycle = map (\<lambda>(i, j, v). (i, j)) (rr_cocycle rr),
                                          pc_dist_land_land = dist_land_land,
                                          pc_dist_land_data = dist_land_data,
                                          pc_dgm1 = map (\<lambda>(b, d). (b * 2, d * 2)) (rr_dgm1 rr),
                                          pc_idx_p1 = rr_idx_p1 rr,
                                          pc_perm = perm res\<rparr>)))))"

section \<open>What is assumed of the eigendecomposition\<close>






section \<open>Example data\<close>

text \<open>
  Five points: the four corners of a cycle with unit sides and diagonals of length 2
  (points 0 to 3, in the path metric of the cycle) and a fifth point at distance 3/4
  from point 0 on the side away from the cycle.  Furthest-point sampling of four
  landmarks picks the corners, in the order 0, 2, 1, 3; the Vietoris-Rips filtration
  of the corners has one class in dimension 1, born at 1 and dead at 2.
\<close>

definition ring5 :: matrix where
  "ring5 = [[0, 1, 2, 1, 3/4],
            [1, 0, 1, 2, 7/4],
            [2, 1, 0, 1, 11/4],
            [1, 2, 1, 0, 7/4],
            [3/4, 7/4, 11/4, 7/4, 0]]"

definition ring5_land_data :: matrix where
  "ring5_land_data = [[0, 1, 2, 1, 3/4],
                      [2, 1, 0, 1, 11/4],
                      [1, 0, 1, 2, 7/4],
                      [1, 2, 1, 0, 7/4]]"

text \<open>
  The identity matrix, and a stand-in for \<open>eigh\<close> that returns it: orthogonal on every
  input, and a true matrix of eigenvectors of the identity matrix \<open>eye2\<close>.
\<close>

definition eye :: "nat \<Rightarrow> matrix" where
  "eye n = map (\<lambda>i. map (\<lambda>j. if i = j then 1 else 0) [0..<n]) [0..<n]"

definition eigh_eye :: "npfloat list list \<Rightarrow> error + npfloat list list" where
  "eigh_eye A = Inr (map (map Some) (eye (length A)))"

definition eye2 :: "npfloat list list" where
  "eye2 = [[Some 1, Some 0], [Some 0, Some 1]]"

section \<open>Properties of the samplers\<close>

lemma argmax_less: "xs \<noteq> [] \<Longrightarrow> argmax xs < length xs"
  by (induction xs rule: argmax.induct) (auto simp: Let_def)

lemma argmax_ge: "j < length xs \<Longrightarrow> xs ! j \<le> xs ! argmax xs"
proof (induction xs arbitrary: j rule: argmax.induct)
  case 1
  then show ?case by simp
next
  case (2 x)
  then show ?case by simp
next
  case (3 x y ys)
  show ?case
  proof (cases j)
    case 0
    then show ?thesis by (auto simp: Let_def)
  next
    case (Suc k)
    with 3 have "(y # ys) ! k \<le> (y # ys) ! argmax (y # ys)" by simp
    with Suc show ?thesis by (auto simp: Let_def)
  qed
qed

lemma argmax_first: "j < argmax xs \<Longrightarrow> xs ! j < xs ! argmax xs"
proof (induction xs arbitrary: j rule: argmax.induct)
  case 1
  then show ?case by simp
next
  case (2 x)
  then show ?case by simp
next
  case (3 x y ys)
  show ?case
  proof (cases "(y # ys) ! argmax (y # ys) \<le> x")
    case True
    with 3(2) show ?thesis by (simp add: Let_def)
  next
    case False
    then have am: "argmax (x # y # ys) = Suc (argmax (y # ys))" by (simp add: Let_def)
    show ?thesis
    proof (cases j)
      case 0
      then show ?thesis using False am by simp
    next
      case (Suc k)
      then have "k < argmax (y # ys)" using 3(2) am by simp
      then have "(y # ys) ! k < (y # ys) ! argmax (y # ys)" using 3(1) by simp
      then show ?thesis using Suc am by simp
    qed
  qed
qed

lemma for_range_upt_invariant:
  assumes "for_range [a..<b] body s0 = Inr s"
    and "I a s0"
    and "\<And>i t t'. a \<le> i \<Longrightarrow> i < b \<Longrightarrow> I i t \<Longrightarrow> body i t = Inr t' \<Longrightarrow> I (Suc i) t'"
    and "a \<le> b"
  shows "I b s"
  using assms
proof (induction "b - a" arbitrary: a s0)
  case 0
  then show ?case by simp
next
  case (Suc n)
  then have ab: "a < b" by simp
  then have upt: "[a..<b] = a # [Suc a..<b]" by (simp add: upt_conv_Cons)
  from Suc.prems(1) upt obtain t where t: "body a s0 = Inr t"
    and rest: "for_range [Suc a..<b] body t = Inr s"
    by (auto split: sum.splits)
  have "I (Suc a) t" using Suc.prems(3)[OF _ ab Suc.prems(2) t] by simp
  moreover have "n = b - Suc a" using Suc.hyps(2) by simp
  ultimately show ?case
    using Suc.hyps(1)[of "Suc a" t] rest Suc.prems(3) ab by simp
qed

lemma for_range_upt_total:
  assumes "I a s0"
    and "\<And>i t. a \<le> i \<Longrightarrow> i < b \<Longrightarrow> I i t \<Longrightarrow> \<exists>t'. body i t = Inr t' \<and> I (Suc i) t'"
    and "a \<le> b"
  shows "\<exists>s. for_range [a..<b] body s0 = Inr s \<and> I b s"
  using assms
proof (induction "b - a" arbitrary: a s0)
  case 0
  then show ?case by simp
next
  case (Suc n)
  then have ab: "a < b" by simp
  then have upt: "[a..<b] = a # [Suc a..<b]" by (simp add: upt_conv_Cons)
  from Suc.prems(2)[OF _ ab Suc.prems(1)] obtain t where t: "body a s0 = Inr t" "I (Suc a) t"
    by auto
  have "n = b - Suc a" using Suc.hyps(2) by simp
  then obtain s where "for_range [Suc a..<b] body t = Inr s \<and> I b s"
    using Suc.hyps(1)[of "Suc a" t] t(2) Suc.prems(2) ab by auto
  then show ?case using upt t(1) by auto
qed

lemma greedy_dm_body_shape:
  assumes "greedy_dm_body D i (p, l, ds) = Inr (p', l', ds')"
  shows "length p' = length p \<and> length l' = length l \<and> length ds' \<le> length ds
    \<and> (\<forall>k. k \<noteq> i \<longrightarrow> p' ! k = p ! k \<and> l' ! k = l ! k)
    \<and> (\<forall>j < length ds'. ds' ! j \<le> ds ! j)
    \<and> (i < length l \<longrightarrow> (\<forall>j < length ds. ds ! j \<le> l' ! i))"
  using assms
  by (auto simp: greedy_dm_body_def np_argmax_def np_minimum_def argmax_ge
           split: if_splits sum.splits)

lemma greedy_dm_loop_seed:
  assumes "for_range [1..<M] (greedy_dm_body D) (replicate M 0, replicate M 0, ds0) = Inr (p, l, ds)"
  shows "length p = M \<and> length l = M \<and> (1 \<le> M \<longrightarrow> p ! 0 = 0 \<and> l ! 0 = 0)"
proof (cases "1 \<le> M")
  case True
  let ?I = "\<lambda>(i::nat) (s :: nat list \<times> real list \<times> real list).
     case s of (p, l, ds) \<Rightarrow> length p = M \<and> length l = M \<and> p ! 0 = 0 \<and> l ! 0 = 0"
  have "?I M (p, l, ds)"
  proof (rule for_range_upt_invariant[where I = ?I, OF assms])
    show "?I 1 (replicate M 0, replicate M 0, ds0)" using True by simp
  next
    fix i t t'
    assume "1 \<le> i" "i < M" "?I i t" "greedy_dm_body D i t = Inr t'"
    then show "?I (Suc i) t'"
      by (cases t; cases t') (use greedy_dm_body_shape in \<open>fastforce\<close>)
  next
    show "1 \<le> M" by fact
  qed
  then show ?thesis by simp
next
  case False
  then have "M = 0" by simp
  with assms show ?thesis by simp
qed


lemma is_matrix_nth: "is_matrix r c A \<Longrightarrow> i < r \<Longrightarrow> length (A ! i) = c"
  by (auto simp: is_matrix_def list_all_length)

lemma greedy_dm_loop_total:
  assumes sq: "is_matrix N N D" and N: "1 \<le> N" and ds0: "length ds0 = N"
  shows "\<exists>p l ds. for_range [1..<M] (greedy_dm_body D) (replicate M 0, replicate M 0, ds0) = Inr (p, l, ds)
           \<and> length p = M \<and> (\<forall>k < M. p ! k < N)"
proof (cases "1 \<le> M")
  case True
  let ?I = "\<lambda>(i::nat) (s :: nat list \<times> real list \<times> real list).
     case s of (p, l, ds) \<Rightarrow> length p = M \<and> length ds = N \<and> (\<forall>k < M. p ! k < N)"
  have "\<exists>s. for_range [1..<M] (greedy_dm_body D) (replicate M 0, replicate M 0, ds0) = Inr s \<and> ?I M s"
  proof (rule for_range_upt_total[where I = ?I])
    show "?I 1 (replicate M 0, replicate M 0, ds0)" using N ds0 by simp
  next
    fix i t
    assume i: "1 \<le> i" "i < M" and I: "?I i t"
    obtain p l ds where t: "t = (p, l, ds)" by (cases t)
    have ne: "ds \<noteq> []" using I t N by auto
    have idx: "argmax ds < N" using argmax_less[OF ne] I t by simp
    have lenD: "length D = N" using sq by (simp add: is_matrix_def)
    have "length (D ! argmax ds) = N" using is_matrix_nth[OF sq idx] .
    then have "length (np_minimum ds (D ! argmax ds)) = N" using I t by (simp add: np_minimum_def)
    moreover have "\<forall>k < M. (p[i := argmax ds]) ! k < N"
      using I t idx i by (auto simp: nth_list_update)
    ultimately show "\<exists>t'. greedy_dm_body D i t = Inr t' \<and> ?I (Suc i) t'"
      using t ne idx lenD I by (simp add: greedy_dm_body_def np_argmax_def)
  next
    show "1 \<le> M" by fact
  qed
  then show ?thesis by auto
next
  case False
  then show ?thesis by simp
qed



lemma getCSM_length: "length (getCSM X Y) = length X"
  by (simp add: getCSM_def)

lemma getCSM_row: 
  "i < length X \<Longrightarrow> getCSM X Y ! i = concat (getCSM [X ! i] Y)"
  by (simp add: getCSM_def)

lemma getCSM_square: "is_matrix (length X) (length X) (getCSM X X)"
  by (simp add: is_matrix_def getCSM_def list_all_iff)








lemma greedy_euclid_body_sim:
  "map_sum id (\<lambda>(p, l, ds, A). (p, l, ds)) (greedy_euclid_body X i (p, l, ds, A))
     = greedy_dm_body (getCSM X X) i (p, l, ds)"
  by (simp add: greedy_euclid_body_def greedy_dm_body_def getCSM_length getCSM_row Let_def
           split: sum.splits)

lemma greedy_euclid_loop_sim:
  "map_sum id (\<lambda>(p, l, ds, A). (p, l, ds)) (for_range is (greedy_euclid_body X) (p, l, ds, A))
     = for_range is (greedy_dm_body (getCSM X X)) (p, l, ds)"
proof (induction "is" arbitrary: p l ds A)
  case Nil
  then show ?case by simp
next
  case (Cons i "is")
  show ?case
  proof (cases "greedy_euclid_body X i (p, l, ds, A)")
    case (Inl e)
    then have "greedy_dm_body (getCSM X X) i (p, l, ds) = Inl e"
      using greedy_euclid_body_sim[of X i p l ds A] by simp
    with Inl show ?thesis by simp
  next
    case (Inr t)
    obtain p' l' ds' A' where t: "t = (p', l', ds', A')" by (cases t)
    have "greedy_dm_body (getCSM X X) i (p, l, ds) = Inr (p', l', ds')"
      using greedy_euclid_body_sim[of X i p l ds A] Inr t by simp
    with Inr t Cons.IH[of p' l' ds' A'] show ?thesis by simp
  qed
qed

lemma getGreedyPermEuclidean_as_DM:
  assumes "getGreedyPermEuclidean X M = Inr r"
  shows "X \<noteq> [] \<and> 1 \<le> M \<and>
         (\<exists>r'. getGreedyPermDM (getCSM X X) M = Inr r' \<and> perm r' = perm r \<and> lambdas r' = lambdas r)"
proof -
  from assms have X: "X \<noteq> []" and M: "M \<noteq> 0"
    by (auto simp: getGreedyPermEuclidean_def Let_def split: if_splits)
  let ?ds = "concat (getCSM [X ! 0] X)"
  let ?A = "(replicate M (replicate (length X) 0))[0 := ?ds]"
  from assms X M obtain p l ds A where
    run: "for_range [1..<M] (greedy_euclid_body X) (replicate M 0, replicate M 0, ?ds, ?A) = Inr (p, l, ds, A)"
    and r: "perm r = p" "lambdas r = l"
    by (auto simp: getGreedyPermEuclidean_def Let_def split: sum.splits)
  have "for_range [1..<M] (greedy_dm_body (getCSM X X)) (replicate M 0, replicate M 0, ?ds) = Inr (p, l, ds)"
    using greedy_euclid_loop_sim[of "[1..<M]" X "replicate M 0" "replicate M 0" ?ds ?A] run by simp
  moreover have "getCSM X X ! 0 = ?ds" using X by (simp add: getCSM_row)
  moreover have "getCSM X X \<noteq> []" using X getCSM_length[of X X] by auto
  ultimately show ?thesis using X M r by (simp add: getGreedyPermDM_def)
qed

lemma getGreedyPermEuclidean_of_DM:
  assumes "getGreedyPermDM (getCSM X X) M = Inr r'" "X \<noteq> []" "1 \<le> M"
  shows "\<exists>r. getGreedyPermEuclidean X M = Inr r \<and> perm r = perm r' \<and> lambdas r = lambdas r'"
proof -
  let ?ds = "concat (getCSM [X ! 0] X)"
  let ?A = "(replicate M (replicate (length X) 0))[0 := ?ds]"
  have ne: "getCSM X X \<noteq> []" using assms(2) getCSM_length[of X X] by auto
  have row0: "getCSM X X ! 0 = ?ds" using assms(2) by (simp add: getCSM_row)
  from assms(1) ne row0 obtain p l ds where
    run: "for_range [1..<M] (greedy_dm_body (getCSM X X)) (replicate M 0, replicate M 0, ?ds) = Inr (p, l, ds)"
    and r: "perm r' = p" "lambdas r' = l"
    by (auto simp: getGreedyPermDM_def split: sum.splits)
  have sim: "map_sum id (\<lambda>(p, l, ds, A). (p, l, ds))
          (for_range [1..<M] (greedy_euclid_body X) (replicate M 0, replicate M 0, ?ds, ?A)) = Inr (p, l, ds)"
    using greedy_euclid_loop_sim[of "[1..<M]" X "replicate M 0" "replicate M 0" ?ds ?A] run by simp
  then obtain A where
    "for_range [1..<M] (greedy_euclid_body X) (replicate M 0, replicate M 0, ?ds, ?A) = Inr (p, l, ds, A)"
    by (cases "for_range [1..<M] (greedy_euclid_body X) (replicate M 0, replicate M 0, ?ds, ?A)") auto
  then show ?thesis using assms(2,3) r by (simp add: getGreedyPermEuclidean_def Let_def)
qed

lemma getGreedyPermDM_total:
  assumes "is_matrix N N D" "1 \<le> N"
  shows "\<exists>r. getGreedyPermDM D M = Inr r \<and> length (perm r) = M \<and> (\<forall>k < M. perm r ! k < N)"
proof -
  have ne: "D \<noteq> []" using assms by (auto simp: is_matrix_def)
  have "length (D ! 0) = N" using is_matrix_nth[OF assms(1)] assms(2) by simp
  from greedy_dm_loop_total[OF assms this, of M] obtain p l ds where
    "for_range [1..<M] (greedy_dm_body D) (replicate M 0, replicate M 0, D ! 0) = Inr (p, l, ds)"
    "length p = M" "\<forall>k < M. p ! k < N" by blast
  then show ?thesis using ne by (simp add: getGreedyPermDM_def)
qed

lemma getGreedyPermDM_run:
  assumes "getGreedyPermDM D M = Inr r"
  shows "D \<noteq> [] \<and> (\<exists>ds. for_range [1..<M] (greedy_dm_body D) (replicate M 0, replicate M 0, D ! 0)
           = Inr (perm r, lambdas r, ds))"
  using assms by (auto simp: getGreedyPermDM_def split: if_splits sum.splits)

lemma getGreedyPermDM_seed:
  assumes "getGreedyPermDM D M = Inr r" "1 \<le> M"
  shows "perm r ! 0 = 0 \<and> lambdas r ! 0 = 0"
  using getGreedyPermDM_run[OF assms(1)] greedy_dm_loop_seed assms(2) by blast



lemma too_many_not_distinct:
  assumes "length xs = M" "\<forall>k < M. xs ! k < N" "N < M"
  shows "\<not> distinct (xs :: nat list)"
proof
  assume d: "distinct xs"
  have "set xs \<subseteq> {..<N}" using assms(1,2) by (auto simp: in_set_conv_nth)
  then have "card (set xs) \<le> card {..<N}" by (intro card_mono) auto
  then show False using d assms by (simp add: distinct_card)
qed

lemma getGreedyPermEuclidean_total:
  assumes "X \<noteq> []" "1 \<le> M"
  shows "\<exists>r. getGreedyPermEuclidean X M = Inr r \<and> length (perm r) = M
              \<and> (\<forall>k < M. perm r ! k < length X)"
proof -
  have "1 \<le> length X" using assms(1) by (cases X) auto
  from getGreedyPermDM_total[OF getCSM_square this, of M] obtain r' where
    r': "getGreedyPermDM (getCSM X X) M = Inr r'" "length (perm r') = M"
        "\<forall>k < M. perm r' ! k < length X" by blast
  from getGreedyPermEuclidean_of_DM[OF r'(1) assms] r'(2,3) show ?thesis by auto
qed


text \<open>
  Claim C10.  Whenever either sampler returns a result for a landmark count of at least
  one, the first landmark is point 0 and the first insertion radius is 0: the loop
  starts at index 1 and never writes entry 0.  Both samplers do return: the matrix
  variant on every square matrix with at least one row, the Euclidean variant on every
  non-empty point cloud.
\<close>

theorem sampler_seed:
  "(getGreedyPermDM D M = Inr r \<and> 1 \<le> M \<longrightarrow> perm r ! 0 = 0 \<and> lambdas r ! 0 = 0)
   \<and> (getGreedyPermEuclidean X M = Inr r' \<and> 1 \<le> M \<longrightarrow> perm r' ! 0 = 0 \<and> lambdas r' ! 0 = 0)
   \<and> (is_matrix N N D \<and> 1 \<le> N \<longrightarrow> (\<exists>r. getGreedyPermDM D M = Inr r))
   \<and> (X \<noteq> [] \<and> 1 \<le> M \<longrightarrow> (\<exists>r. getGreedyPermEuclidean X M = Inr r))"
proof (intro conjI impI)
  assume "getGreedyPermDM D M = Inr r \<and> 1 \<le> M"
  then show "perm r ! 0 = 0" "lambdas r ! 0 = 0" using getGreedyPermDM_seed by blast+
next
  assume a: "getGreedyPermEuclidean X M = Inr r' \<and> 1 \<le> M"
  then obtain r2 where "getGreedyPermDM (getCSM X X) M = Inr r2" "perm r2 = perm r'" "lambdas r2 = lambdas r'"
    using getGreedyPermEuclidean_as_DM by blast
  then show "perm r' ! 0 = 0" "lambdas r' ! 0 = 0" using getGreedyPermDM_seed[of "getCSM X X" M r2] a by auto
next
  assume "is_matrix N N D \<and> 1 \<le> N"
  then show "\<exists>r. getGreedyPermDM D M = Inr r" using getGreedyPermDM_total by blast
next
  assume "X \<noteq> [] \<and> 1 \<le> M"
  then show "\<exists>r. getGreedyPermEuclidean X M = Inr r" using getGreedyPermEuclidean_total by blast
qed

lemma loop2: "[1..<2] = [1]" by (simp add: upt_rec)
lemma loop3: "[1..<3] = [1, 2]" by (simp add: upt_rec)

lemma ex_dm2: "getGreedyPermDM [[0, 1], [1, 0]] 2
     = Inr \<lparr>perm = [0, 1], lambdas = [0, 1], DLandmarks = [[0, 1], [1, 0]]\<rparr>"
  by (simp add: getGreedyPermDM_def greedy_dm_body_def np_argmax_def np_minimum_def loop2 numeral_2_eq_2)

lemma ex_eu2: "getGreedyPermEuclidean [[0], [1]] 2
     = Inr \<lparr>perm = [0, 1], lambdas = [0, 1], res_Y = [[0], [1]], res_D = [[0, 1], [1, 0]]\<rparr>"
  by (simp add: getGreedyPermEuclidean_def greedy_euclid_body_def np_argmax_def np_minimum_def loop2 numeral_2_eq_2
      getCSM_def sumsq_def dot_def Let_def)

lemma ex_dm3: "getGreedyPermDM [[0, 1], [1, 0]] 3
     = Inr \<lparr>perm = [0, 1, 0], lambdas = [0, 1, 0], DLandmarks = [[0, 1], [1, 0], [0, 1]]\<rparr>"
  by (simp add: getGreedyPermDM_def greedy_dm_body_def np_argmax_def np_minimum_def loop3 numeral_3_eq_3)


lemma ex_eu3: "getGreedyPermEuclidean [[0], [1]] 3
     = Inr \<lparr>perm = [0, 1, 0], lambdas = [0, 1, 0], res_Y = [[0], [1], [0]], res_D = [[0, 1], [1, 0], [0, 1]]\<rparr>"
  by (simp add: getGreedyPermEuclidean_def greedy_euclid_body_def np_argmax_def np_minimum_def loop3 numeral_3_eq_3
      getCSM_def sumsq_def dot_def Let_def)



theorem sampler_seed_witness:
  "getGreedyPermDM [[0, 1], [1, 0]] 2
     = Inr \<lparr>perm = [0, 1], lambdas = [0, 1], DLandmarks = [[0, 1], [1, 0]]\<rparr>
   \<and> getGreedyPermEuclidean [[0], [1]] 2
     = Inr \<lparr>perm = [0, 1], lambdas = [0, 1], res_Y = [[0], [1]], res_D = [[0, 1], [1, 0]]\<rparr>
   \<and> is_matrix 2 2 [[0, 1], [1, 0::real]] \<and> (1::nat) \<le> 2 \<and> [[0], [1::real]] \<noteq> []
   \<and> [0, 1::nat] ! 0 = 0 \<and> [0, 1::real] ! 0 = 0
   \<and> (\<exists>r. getGreedyPermDM [[0, 1], [1, 0]] 2 = Inr r)
   \<and> (\<exists>r. getGreedyPermEuclidean [[0], [1]] 2 = Inr r)"
  using sampler_seed[of "[[0, 1], [1, 0]]" 2
      "\<lparr>perm = [0, 1], lambdas = [0, 1], DLandmarks = [[0, 1], [1, 0]]\<rparr>"
      "[[0], [1]]"
      "\<lparr>perm = [0, 1], lambdas = [0, 1], res_Y = [[0], [1]], res_D = [[0, 1], [1, 0]]\<rparr>" 2]
    ex_dm2 ex_eu2
  by (simp add: is_matrix_def)

text \<open>
  Claim C9, as the code has it.  Neither sampler compares the landmark count with the
  number of points.  On a square matrix with at least one row, and on a non-empty point
  cloud, the sampler returns a result for every landmark count \<open>M\<close>: \<open>M\<close> indices of
  data points, which repeat when \<open>M\<close> exceeds the number of points.
\<close>

theorem sampler_no_landmark_count_check:
  "(is_matrix N N D \<and> 1 \<le> N \<longrightarrow>
      (\<exists>r. getGreedyPermDM D M = Inr r \<and> length (perm r) = M
           \<and> (\<forall>k < M. perm r ! k < N) \<and> (N < M \<longrightarrow> \<not> distinct (perm r))))
   \<and> (X \<noteq> [] \<and> 1 \<le> M \<longrightarrow>
      (\<exists>r. getGreedyPermEuclidean X M = Inr r \<and> length (perm r) = M
           \<and> (\<forall>k < M. perm r ! k < length X) \<and> (length X < M \<longrightarrow> \<not> distinct (perm r))))"
proof (intro conjI impI)
  assume "is_matrix N N D \<and> 1 \<le> N"
  then obtain r where r: "getGreedyPermDM D M = Inr r" "length (perm r) = M" "\<forall>k < M. perm r ! k < N"
    using getGreedyPermDM_total by blast
  then have "N < M \<longrightarrow> \<not> distinct (perm r)" using too_many_not_distinct by blast
  with r show "\<exists>r. getGreedyPermDM D M = Inr r \<and> length (perm r) = M
           \<and> (\<forall>k < M. perm r ! k < N) \<and> (N < M \<longrightarrow> \<not> distinct (perm r))" by blast
next
  assume "X \<noteq> [] \<and> 1 \<le> M"
  then obtain r where r: "getGreedyPermEuclidean X M = Inr r" "length (perm r) = M"
      "\<forall>k < M. perm r ! k < length X"
    using getGreedyPermEuclidean_total by blast
  then have "length X < M \<longrightarrow> \<not> distinct (perm r)" using too_many_not_distinct by blast
  with r show "\<exists>r. getGreedyPermEuclidean X M = Inr r \<and> length (perm r) = M
           \<and> (\<forall>k < M. perm r ! k < length X) \<and> (length X < M \<longrightarrow> \<not> distinct (perm r))" by blast
qed

theorem sampler_no_landmark_count_check_witness:
  "is_matrix 2 2 [[0, 1], [1, 0::real]] \<and> (1::nat) \<le> 2 \<and> (2::nat) < 3
   \<and> [[0], [1::real]] \<noteq> [] \<and> (1::nat) \<le> 3 \<and> length [[0], [1::real]] < 3
   \<and> (\<exists>r. getGreedyPermDM [[0, 1], [1, 0]] 3 = Inr r \<and> length (perm r) = 3 \<and> \<not> distinct (perm r))
   \<and> (\<exists>r. getGreedyPermEuclidean [[0], [1]] 3 = Inr r \<and> length (perm r) = 3 \<and> \<not> distinct (perm r))"
  using sampler_no_landmark_count_check[of 2 "[[0, 1], [1, 0]]" 3 "[[0], [1]]"]
  by (simp add: is_matrix_def) blast

theorem sampler_landmark_count_counterexample:
  "getGreedyPermDM [[0, 1], [1, 0]] 3
     = Inr \<lparr>perm = [0, 1, 0], lambdas = [0, 1, 0], DLandmarks = [[0, 1], [1, 0], [0, 1]]\<rparr>
   \<and> getGreedyPermEuclidean [[0], [1]] 3
     = Inr \<lparr>perm = [0, 1, 0], lambdas = [0, 1, 0], res_Y = [[0], [1], [0]],
            res_D = [[0, 1], [1, 0], [0, 1]]\<rparr>"
  using ex_dm3 ex_eu3 by simp







section \<open>Properties of the cover radius\<close>

lemma loop4: "[1..<4] = [1, 2, 3]" by (simp add: upt_rec)

lemma ring5_greedy:
  "getGreedyPermDM ring5 4
     = Inr \<lparr>perm = [0, 2, 1, 3], lambdas = [0, 2, 1, 1], DLandmarks = ring5_land_data\<rparr>"
  by (simp add: getGreedyPermDM_def greedy_dm_body_def np_argmax_def np_minimum_def loop4
        ring5_def ring5_land_data_def eval_nat_numeral)

lemma ring5_coverage: "coverage ring5_land_data = Inr 0"
  by (simp add: coverage_def np_max_def ring5_land_data_def)

lemma ring5_coverage_spec: "coverage_spec ring5_land_data = Inr (3/4)"
  by (simp add: coverage_spec_def np_max_def ring5_land_data_def ncols_def column_def upt_rec eval_nat_numeral)

lemma ring5_dreimac_radius:
  "dreimac_ProjCoords_radius [(1, 2)] [[(0, 1, 1)]] [0] ring5_land_data (99/100)
     = Inr \<lparr>rr_dgm1 = [(1/2, 1)], rr_idx_p1 = [0], rr_cocycle = [(0, 1, 1)],
            rr_cohomdeath = 1/2, rr_cohombirth = 1, rr_coverage = 0, rr_r_cover = 199/200\<rparr>"
  by (simp add: dreimac_ProjCoords_radius_def select_class_def py_index_def np_argsort_def
        add_cocycles_def ring5_coverage Let_def)

lemma ring5_root_radius:
  "ProjCoords_radius [(1, 2)] [[(0, 1, 1)]] ring5_land_data (99/100)
     = Inr \<lparr>rr_dgm1 = [(1, 2)], rr_idx_p1 = [0], rr_cocycle = [(0, 1, 1)],
            rr_cohomdeath = 1, rr_cohombirth = 2, rr_coverage = 0, rr_r_cover = 199/100\<rparr>"
  by (simp add: ProjCoords_radius_def np_argmax_def ring5_coverage Let_def)


lemma coverage_value:
  "coverage dld = Inr c \<Longrightarrow> dld \<noteq> [] \<and> c = Max (set (map (\<lambda>row. Min (set row)) dld))"
  by (auto simp: coverage_def np_max_def split: if_splits)

lemma coverage_zero_on_distances:
  assumes "dld \<noteq> []" "\<forall>row \<in> set dld. 0 \<in> set row \<and> (\<forall>d \<in> set row. 0 \<le> d)"
  shows "coverage dld = Inr 0"
proof -
  have rows: "\<forall>row \<in> set dld. Min (set row) = 0"
  proof
    fix row assume r: "row \<in> set dld"
    then have "0 \<in> set row" "\<forall>d \<in> set row. 0 \<le> d" using assms(2) by auto
    then show "Min (set row) = 0" by (intro Min_eqI) auto
  qed
  then have "set (map (\<lambda>row. Min (set row)) dld) = {0}" using assms(1) by (cases dld) auto
  moreover have "\<not> list_ex (\<lambda>row. row = []) dld" using assms(2) by (auto simp: list_ex_iff)
  ultimately show ?thesis using assms(1) by (simp add: coverage_def np_max_def)
qed

lemma add_classes_result:
  "add_classes dgm1 cocycles idx_p1 cs (c, dth, bth) = Inr (c', dth', bth') \<Longrightarrow>
   \<exists>sel. map (select_class dgm1 cocycles idx_p1) cs = map Inr sel
       \<and> dth' = Max (set (dth # map (\<lambda>j. fst (dgm1 ! j)) sel))
       \<and> bth' = Min (set (bth # map (\<lambda>j. snd (dgm1 ! j)) sel))"
proof (induction cs arbitrary: c dth bth)
  case Nil
  then show ?case by simp
next
  case (Cons a cs)
  from Cons.prems obtain j where j: "select_class dgm1 cocycles idx_p1 a = Inr j"
    and rest: "add_classes dgm1 cocycles idx_p1 cs
        (add_cocycles c (cocycles ! j), max dth (fst (dgm1 ! j)), min bth (snd (dgm1 ! j)))
        = Inr (c', dth', bth')"
    by (auto split: sum.splits)
  from Cons.IH[OF rest] obtain sel where sel:
    "map (select_class dgm1 cocycles idx_p1) cs = map Inr sel"
    "dth' = Max (set (max dth (fst (dgm1 ! j)) # map (\<lambda>j. fst (dgm1 ! j)) sel))"
    "bth' = Min (set (min bth (snd (dgm1 ! j)) # map (\<lambda>j. snd (dgm1 ! j)) sel))"
    by blast
  have "dth' = Max (set (dth # map (\<lambda>j. fst (dgm1 ! j)) (j # sel)))"
    using sel(2) by (cases sel) (simp_all add: max.assoc)
  moreover have "bth' = Min (set (bth # map (\<lambda>j. snd (dgm1 ! j)) (j # sel)))"
    using sel(3) by (cases sel) (simp_all add: min.assoc)
  ultimately show ?case using j sel(1) by (intro exI[of _ "j # sel"]) simp
qed

lemma dreimac_radius_formula:
  assumes "dreimac_ProjCoords_radius dgms1 cocycles cocycle_idx dld perc = Inr rr"
  shows "rr_dgm1 rr = map (\<lambda>(b, d). (b / 2, d / 2)) dgms1
    \<and> coverage dld = Inr (rr_coverage rr)
    \<and> rr_r_cover rr = (1 - perc) * max (rr_cohomdeath rr) (rr_coverage rr) + perc * rr_cohombirth rr
    \<and> (\<exists>sel. sel \<noteq> []
          \<and> map (select_class (rr_dgm1 rr) cocycles (rr_idx_p1 rr)) cocycle_idx = map Inr sel
          \<and> rr_cohomdeath rr = Max (set (map (\<lambda>j. fst (rr_dgm1 rr ! j)) sel))
          \<and> rr_cohombirth rr = Min (set (map (\<lambda>j. snd (rr_dgm1 rr ! j)) sel)))"
proof -
  let ?dgm1 = "map (\<lambda>(b, d). (b / 2, d / 2)) dgms1"
  let ?idx = "np_argsort (map (\<lambda>(b, d). b - d) ?dgm1)"
  from assms obtain c0 cs where ci: "cocycle_idx = c0 # cs"
    by (cases cocycle_idx) (auto simp: dreimac_ProjCoords_radius_def Let_def)
  from assms ci obtain j0 where j0: "select_class ?dgm1 cocycles ?idx c0 = Inr j0"
    by (auto simp: dreimac_ProjCoords_radius_def Let_def split: sum.splits)
  from assms ci j0 obtain c dth bth where
    ac: "add_classes ?dgm1 cocycles ?idx cs
           (add_cocycles [] (cocycles ! j0), fst (?dgm1 ! j0), snd (?dgm1 ! j0)) = Inr (c, dth, bth)"
    by (auto simp: dreimac_ProjCoords_radius_def Let_def split: sum.splits)
  from assms ci j0 ac obtain cov where cov: "coverage dld = Inr cov"
    and rr: "rr = \<lparr>rr_dgm1 = ?dgm1, rr_idx_p1 = ?idx, rr_cocycle = c,
                   rr_cohomdeath = dth, rr_cohombirth = bth, rr_coverage = cov,
                   rr_r_cover = (1 - perc) * max dth cov + perc * bth\<rparr>"
    by (auto simp: dreimac_ProjCoords_radius_def Let_def split: sum.splits)
  from add_classes_result[OF ac] obtain sel where sel:
    "map (select_class ?dgm1 cocycles ?idx) cs = map Inr sel"
    "dth = Max (set (fst (?dgm1 ! j0) # map (\<lambda>j. fst (?dgm1 ! j)) sel))"
    "bth = Min (set (snd (?dgm1 ! j0) # map (\<lambda>j. snd (?dgm1 ! j)) sel))"
    by blast
  have "map (select_class ?dgm1 cocycles ?idx) cocycle_idx = map Inr (j0 # sel)"
    using ci j0 sel(1) by simp
  then have "\<exists>sel'. sel' \<noteq> []
          \<and> map (select_class ?dgm1 cocycles ?idx) cocycle_idx = map Inr sel'
          \<and> dth = Max (set (map (\<lambda>j. fst (?dgm1 ! j)) sel'))
          \<and> bth = Min (set (map (\<lambda>j. snd (?dgm1 ! j)) sel'))"
    using sel(2,3) by (intro exI[of _ "j0 # sel"]) simp
  then show ?thesis using rr cov by simp
qed

lemma root_radius_formula:
  assumes "ProjCoords_radius dgm1 cocycles dld perc = Inr rr"
  shows "rr_dgm1 rr = dgm1
    \<and> coverage dld = Inr (rr_coverage rr)
    \<and> rr_r_cover rr = (1 - perc) * max (rr_cohomdeath rr) (rr_coverage rr) + perc * rr_cohombirth rr
    \<and> (\<exists>j < length dgm1. rr_cohomdeath rr = fst (dgm1 ! j) \<and> rr_cohombirth rr = snd (dgm1 ! j))"
proof -
  from assms obtain j where j: "np_argmax (map (\<lambda>(b, d). d - b) dgm1) = Inr j"
    by (auto simp: ProjCoords_radius_def split: sum.splits)
  then have "dgm1 \<noteq> []" "j = argmax (map (\<lambda>(b, d). d - b) dgm1)"
    by (auto simp: np_argmax_def split: if_splits)
  then have jl: "j < length dgm1" using argmax_less[of "map (\<lambda>(b, d). d - b) dgm1"] by simp
  from assms j obtain cov where "coverage dld = Inr cov"
    "rr = \<lparr>rr_dgm1 = dgm1, rr_idx_p1 = [j], rr_cocycle = cocycles ! j,
           rr_cohomdeath = fst (dgm1 ! j), rr_cohombirth = snd (dgm1 ! j),
           rr_coverage = cov,
           rr_r_cover = (1 - perc) * max (fst (dgm1 ! j)) cov + perc * snd (dgm1 ! j)\<rparr>"
    by (auto simp: ProjCoords_radius_def split: sum.splits if_splits)
  then show ?thesis using jl by auto
qed

lemma dreimac_ProjCoords_dgm1:
  assumes "dreimac_ProjCoords rips eigh P n_landmarks perc cocycle_idx proj_dim = Inr res"
  shows "pc_dgm1 res = fst (rips (pc_dist_land_land res))"
proof -
  have dbl: "map (\<lambda>(b, d). (b * 2, d * 2)) (map (\<lambda>(b, d). (b / 2, d / 2)) g) = g" for g :: dgm
    by (induction g) auto
  from assms obtain gr where gr: "getGreedyPermDM P n_landmarks = Inr gr"
    by (auto simp: dreimac_ProjCoords_def Let_def split: sum.splits)
  let ?dll = "map (\<lambda>row. map (\<lambda>p. row ! p) (perm gr)) (DLandmarks gr)"
  from assms gr obtain rr where
    rr: "dreimac_ProjCoords_radius (fst (rips ?dll)) (snd (rips ?dll)) cocycle_idx (DLandmarks gr) perc = Inr rr"
    and res: "pc_dgm1 res = map (\<lambda>(b, d). (b * 2, d * 2)) (rr_dgm1 rr)" "pc_dist_land_land res = ?dll"
    by (auto simp: dreimac_ProjCoords_def Let_def split: sum.splits if_splits)
  from dreimac_radius_formula[OF rr] res dbl show ?thesis by simp
qed

text \<open>
  Claim C1, at an input where the code departs from it.  On the five-point example with
  the default \<open>perc = 0.99\<close>, the code's coverage is the maximum over the landmarks of
  the minimum over the data points, which is 0 (every landmark is a data point), and
  its radius is 199/200.  The coverage of the claim, the maximum over the data points
  of the minimum over the landmarks, is 3/4, and the radius of the claim is 399/400.
\<close>

theorem cover_radius_coverage_axis:
  "getGreedyPermDM ring5 4
     = Inr \<lparr>perm = [0, 2, 1, 3], lambdas = [0, 2, 1, 1], DLandmarks = ring5_land_data\<rparr>
   \<and> dreimac_ProjCoords_radius [(1, 2)] [[(0, 1, 1)]] [0] ring5_land_data (99/100)
     = Inr \<lparr>rr_dgm1 = [(1/2, 1)], rr_idx_p1 = [0], rr_cocycle = [(0, 1, 1)],
            rr_cohomdeath = 1/2, rr_cohombirth = 1, rr_coverage = 0, rr_r_cover = 199/200\<rparr>
   \<and> coverage_spec ring5_land_data = Inr (3/4)
   \<and> (1 - 99/100) * max (1/2) (3/4) + 99/100 * 1 = (399/400 :: real)"
  using ring5_greedy ring5_dreimac_radius ring5_coverage_spec by simp

text \<open>
  Claim C3, at an input where the code departs from it.  \<open>ProjCoords\<close> of the
  top-level file compares the birth and death of the class with the coverage as
  \<open>ripser\<close> returned them, 1 and 2, and gets the radius 199/100; the halved values
  1/2 and 1, which \<open>ProjCoords\<close> of \<open>dreimac\<close> uses, give 199/200.
\<close>

theorem cover_radius_not_halved:
  "ProjCoords_radius [(1, 2)] [[(0, 1, 1)]] ring5_land_data (99/100)
     = Inr \<lparr>rr_dgm1 = [(1, 2)], rr_idx_p1 = [0], rr_cocycle = [(0, 1, 1)],
            rr_cohomdeath = 1, rr_cohombirth = 2, rr_coverage = 0, rr_r_cover = 199/100\<rparr>
   \<and> dreimac_ProjCoords_radius [(1, 2)] [[(0, 1, 1)]] [0] ring5_land_data (99/100)
     = Inr \<lparr>rr_dgm1 = [(1/2, 1)], rr_idx_p1 = [0], rr_cocycle = [(0, 1, 1)],
            rr_cohomdeath = 1/2, rr_cohombirth = 1, rr_coverage = 0, rr_r_cover = 199/200\<rparr>"
  using ring5_root_radius ring5_dreimac_radius by simp

section \<open>Properties of the partition of unity and the classifying map\<close>

lemma is_matrix_length: "is_matrix r c A \<Longrightarrow> length A = r"
  by (simp add: is_matrix_def)

lemma ncols_matrix: "is_matrix r c A \<Longrightarrow> 1 \<le> r \<Longrightarrow> ncols A = c"
  by (cases A) (auto simp: is_matrix_def ncols_def)

lemma column_length: "length (column A j) = length A"
  by (simp add: column_def)

lemma column_nth: "l < length A \<Longrightarrow> column A j ! l = A ! l ! j"
  by (simp add: column_def)

lemma bumps_matrix: "is_matrix L N dld \<Longrightarrow> is_matrix L N (bumps dld r)"
  by (auto simp: is_matrix_def bumps_def list_all_iff)

lemma bumps_nth:
  "is_matrix L N dld \<Longrightarrow> l < L \<Longrightarrow> j < N \<Longrightarrow>
   bumps dld r ! l ! j = (if dld ! l ! j < r then r - dld ! l ! j else 0)"
  using is_matrix_nth[of L N dld l] by (simp add: bumps_def is_matrix_def)

lemma bumps_column_nonneg:
  assumes "is_matrix L N dld" "j < N"
  shows "\<forall>p \<in> set (column (bumps dld r) j). 0 \<le> p"
proof
  fix p assume "p \<in> set (column (bumps dld r) j)"
  then obtain l where l: "l < L" "p = bumps dld r ! l ! j"
    using is_matrix_length[OF bumps_matrix[OF assms(1), of r]]
    by (auto simp: in_set_conv_nth column_length column_nth)
  then show "0 \<le> p" using bumps_nth[OF assms(1) l(1) assms(2), of r] by simp
qed

lemma partition_of_unity_matrix:
  assumes "is_matrix L N dld" "1 \<le> L"
  shows "is_matrix L N (partition_of_unity dld r)"
proof -
  have m: "is_matrix L N (bumps dld r)" by (rule bumps_matrix[OF assms(1)])
  have "length (column_sums (bumps dld r)) = N"
    using ncols_matrix[OF m assms(2)] by (simp add: column_sums_def)
  then show ?thesis using m
    by (auto simp: partition_of_unity_def Let_def is_matrix_def list_all_iff)
qed

lemma partition_of_unity_nth:
  assumes "is_matrix L N dld" "l < L" "j < N"
  shows "partition_of_unity dld r ! l ! j
         = np_div (Some (bumps dld r ! l ! j)) (Some (sum_list (column (bumps dld r) j)))"
proof -
  have m: "is_matrix L N (bumps dld r)" by (rule bumps_matrix[OF assms(1)])
  have L: "1 \<le> L" using assms(2) by simp
  have cs: "column_sums (bumps dld r) = map (\<lambda>j. sum_list (column (bumps dld r) j)) [0..<N]"
    using ncols_matrix[OF m L] by (simp add: column_sums_def)
  have "length (bumps dld r ! l) = N" using is_matrix_nth[OF m assms(2)] .
  then show ?thesis using assms is_matrix_length[OF m] cs
    by (simp add: partition_of_unity_def Let_def)
qed

lemma partition_of_unity_column:
  assumes "is_matrix L N dld" "j < N"
  shows "column (partition_of_unity dld r) j
         = map (\<lambda>p. np_div (Some p) (Some (sum_list (column (bumps dld r) j))))
               (column (bumps dld r) j)"
proof (cases "1 \<le> L")
  case True
  have m: "is_matrix L N (bumps dld r)" by (rule bumps_matrix[OF assms(1)])
  have v: "is_matrix L N (partition_of_unity dld r)"
    by (rule partition_of_unity_matrix[OF assms(1) True])
  show ?thesis
  proof (rule nth_equalityI)
    show "length (column (partition_of_unity dld r) j) = length (map (\<lambda>p. np_div (Some p)
        (Some (sum_list (column (bumps dld r) j)))) (column (bumps dld r) j))"
      using is_matrix_length[OF m] is_matrix_length[OF v] by (simp add: column_length)
  next
    fix l assume "l < length (column (partition_of_unity dld r) j)"
    then have l: "l < L" using is_matrix_length[OF v] by (simp add: column_length)
    then show "column (partition_of_unity dld r) j ! l = map (\<lambda>p. np_div (Some p)
        (Some (sum_list (column (bumps dld r) j)))) (column (bumps dld r) j) ! l"
      using partition_of_unity_nth[OF assms(1) l assms(2), of r]
        is_matrix_length[OF m] is_matrix_length[OF v]
      by (simp add: column_nth column_length)
  qed
next
  case False
  then have "dld = []" using assms(1) by (cases dld) (auto simp: is_matrix_def)
  then show ?thesis by (simp add: partition_of_unity_def bumps_def column_def Let_def)
qed



lemma uncovered_sum_zero:
  assumes "is_matrix L N dld" "j < N" "\<forall>l < L. \<not> dld ! l ! j < r"
  shows "column (bumps dld r) j = replicate L 0"
proof (rule nth_equalityI)
  show "length (column (bumps dld r) j) = length (replicate L (0::real))"
    using is_matrix_length[OF bumps_matrix[OF assms(1), of r]] by (simp add: column_length)
next
  fix l assume "l < length (column (bumps dld r) j)"
  then have l: "l < L"
    using is_matrix_length[OF bumps_matrix[OF assms(1), of r]] by (simp add: column_length)
  then show "column (bumps dld r) j ! l = replicate L 0 ! l"
    using bumps_nth[OF assms(1) l assms(2), of r] assms(3)
      is_matrix_length[OF bumps_matrix[OF assms(1), of r]]
    by (simp add: column_nth)
qed

lemma uncovered_column:
  assumes "is_matrix L N dld" "j < N" "\<forall>l < L. \<not> dld ! l ! j < r"
  shows "column (partition_of_unity dld r) j = replicate L None"
  using partition_of_unity_column[OF assms(1,2), of r] uncovered_sum_zero[OF assms]
  by (simp add: map_replicate_const sum_list_replicate)

lemma covered_iff_positive_sum:
  assumes "is_matrix L N dld" "j < N"
  shows "0 < sum_list (column (bumps dld r) j) \<longleftrightarrow> (\<exists>l < L. dld ! l ! j < r)"
proof
  assume pos: "0 < sum_list (column (bumps dld r) j)"
  show "\<exists>l < L. dld ! l ! j < r"
  proof (rule ccontr)
    assume "\<not> ?thesis"
    then have "column (bumps dld r) j = replicate L 0"
      using uncovered_sum_zero[OF assms] by blast
    with pos show False by (simp add: sum_list_replicate)
  qed
next
  assume "\<exists>l < L. dld ! l ! j < r"
  then obtain l where l: "l < L" "dld ! l ! j < r" by blast
  let ?col = "column (bumps dld r) j"
  have len: "length ?col = L"
    using is_matrix_length[OF bumps_matrix[OF assms(1), of r]] by (simp add: column_length)
  have "?col ! l = r - dld ! l ! j"
    using bumps_nth[OF assms(1) l(1) assms(2), of r] l
      is_matrix_length[OF bumps_matrix[OF assms(1), of r]] by (simp add: column_nth)
  then have "0 < ?col ! l" using l by simp
  moreover have "?col ! l \<in> set ?col" using len l by simp
  moreover have "\<forall>p \<in> set ?col. 0 \<le> p" by (rule bumps_column_nonneg[OF assms])
  ultimately show "0 < sum_list ?col"
    by (metis sum_list_nonneg_eq_0_iff sum_list_nonneg less_eq_real_def not_less_iff_gr_or_eq)
qed

lemma ball_indx_ok:
  assumes "is_matrix L N dld" "1 \<le> L"
  shows "\<exists>indx. ball_indx dld r = Inr indx \<and> length indx = N \<and> (\<forall>j < N. indx ! j < L)"
proof -
  let ?U = "balls dld r"
  have m: "is_matrix L N ?U" using assms(1) by (auto simp: is_matrix_def balls_def list_all_iff)
  have ne: "?U \<noteq> []" using m assms(2) by (auto simp: is_matrix_def)
  have nc: "ncols ?U = N" by (rule ncols_matrix[OF m assms(2)])
  have "\<forall>j < N. argmax (column ?U j) < L"
  proof (intro allI impI)
    fix j assume "j < N"
    have "column ?U j \<noteq> []" using ne by (simp add: column_def)
    from argmax_less[OF this] show "argmax (column ?U j) < L"
      using is_matrix_length[OF m] by (simp add: column_length)
  qed
  then show ?thesis using ne nc by (simp add: ball_indx_def Let_def)
qed

lemma sign_matrix_update:
  assumes "sign_matrix L m" "a < L" "b < L"
  shows "sign_matrix L (m[a := (m ! a)[b := - 1]])"
proof -
  have len: "length m = L" and rows: "\<forall>i < L. length (m ! i) = L"
    using assms(1) is_matrix_nth[of L L m] by (auto simp: sign_matrix_def is_matrix_def)
  have "\<And>n. n < L \<Longrightarrow> length (m[a := (m ! a)[b := - 1]] ! n) = L"
    using len rows by (case_tac "n = a") auto
  then have "is_matrix L L (m[a := (m ! a)[b := - 1]])"
    using len by (simp add: is_matrix_def list_all_length)
  moreover have "\<forall>i < L. \<forall>j < L. (m[a := (m ! a)[b := - 1]]) ! i ! j = 1
                   \<or> (m[a := (m ! a)[b := - 1]]) ! i ! j = - 1"
  proof (intro allI impI)
    fix i j assume ij: "i < L" "j < L"
    have old: "m ! i ! j = 1 \<or> m ! i ! j = - 1" using assms(1) ij by (simp add: sign_matrix_def)
    show "(m[a := (m ! a)[b := - 1]]) ! i ! j = 1 \<or> (m[a := (m ! a)[b := - 1]]) ! i ! j = - 1"
    proof (cases "i = a")
      case True
      then show ?thesis using old ij len rows by (cases "j = b") auto
    next
      case False
      then show ?thesis using old ij len by simp
    qed
  qed
  ultimately show ?thesis by (simp add: sign_matrix_def)
qed

lemma cocycle_matrix_ok:
  assumes "list_all (\<lambda>(a, b, v). a < L \<and> b < L) c"
  shows "\<exists>cm. cocycle_matrix L c = Inr cm \<and> sign_matrix L cm"
proof -
  let ?ones = "replicate L (replicate L (1::real))"
  let ?f1 = "\<lambda>(a, b, v) m. m[a := (m ! a)[b := - 1]] :: matrix"
  let ?f2 = "\<lambda>(a, b, v) m. m[b := (m ! b)[a := - 1]] :: matrix"
  have ok: "\<not> list_ex (\<lambda>(a, b, v). L \<le> a \<or> L \<le> b) c"
    using assms by (auto simp: list_all_iff list_ex_iff)
  have Q: "\<And>x. x \<in> set c \<Longrightarrow> (case x of (a, b, v) \<Rightarrow> a < L \<and> b < L)"
    using assms by (auto simp: list_all_iff)
  have s0: "sign_matrix L ?ones" by (simp add: sign_matrix_def is_matrix_def list_all_iff)
  have s1: "sign_matrix L (fold ?f1 c ?ones)"
    by (rule fold_invariant[where Q = "\<lambda>x. case x of (a, b, v) \<Rightarrow> a < L \<and> b < L"])
       (use Q s0 sign_matrix_update in auto)
  have s2: "sign_matrix L (fold ?f2 c (fold ?f1 c ?ones))"
    by (rule fold_invariant[where Q = "\<lambda>x. case x of (a, b, v) \<Rightarrow> a < L \<and> b < L"])
       (use Q s1 sign_matrix_update in auto)
  show ?thesis using ok s2 by (simp add: cocycle_matrix_def Let_def)
qed

lemma sign_loop:
  assumes "length cm0 = N" "length indx = N" "\<forall>j < N. indx ! j < length cm"
  shows "\<exists>t. for_range [0..<N] (sign_row cm indx) cm0 = Inr t \<and> length t = N
           \<and> (\<forall>i < N. t ! i = map2 (\<lambda>v s. np_mul v (Some s)) (cm0 ! i) (cm ! (indx ! i)))"
proof -
  let ?I = "\<lambda>(k::nat) (t :: npfloat list list). length t = N
      \<and> (\<forall>i < k. t ! i = map2 (\<lambda>v s. np_mul v (Some s)) (cm0 ! i) (cm ! (indx ! i)))
      \<and> (\<forall>i. k \<le> i \<and> i < N \<longrightarrow> t ! i = cm0 ! i)"
  have "\<exists>t. for_range [0..<N] (sign_row cm indx) cm0 = Inr t \<and> ?I N t"
  proof (rule for_range_upt_total[where I = ?I])
    show "?I 0 cm0" using assms(1) by simp
  next
    fix i t assume i: "0 \<le> i" "i < N" and I: "?I i t"
    let ?t' = "t[i := map2 (\<lambda>v s. np_mul v (Some s)) (t ! i) (cm ! (indx ! i))]"
    have "sign_row cm indx i t = Inr ?t'" using i I assms(2,3) by (simp add: sign_row_def)
    moreover have "?I (Suc i) ?t'" using i I by (auto simp: nth_list_update less_Suc_eq)
    ultimately show "\<exists>t'. sign_row cm indx i t = Inr t' \<and> ?I (Suc i) t'" by blast
  next
    show "0 \<le> N" by simp
  qed
  then show ?thesis by auto
qed

lemma np_T_nth: "j < ncols A \<Longrightarrow> np_T A ! j = column A j"
  by (simp add: np_T_def)

lemma np_T_length: "length (np_T A) = ncols A"
  by (simp add: np_T_def)

lemma classifying_map_rows:
  assumes "is_matrix L N dld" "1 \<le> L" "list_all (\<lambda>(a, b, v). a < L \<and> b < L) c"
  shows "\<exists>cm signs indx. classifying_map N L c dld r = Inr cm \<and> length cm = N
           \<and> sign_matrix L signs \<and> (\<forall>j < N. indx ! j < L)
           \<and> (\<forall>i < N. cm ! i = map2 (\<lambda>v s. np_mul v (Some s))
                                   (map np_sqrt (column (partition_of_unity dld r) i))
                                   (signs ! (indx ! i)))"
proof -
  from ball_indx_ok[OF assms(1,2), of r] obtain indx where
    indx: "ball_indx dld r = Inr indx" "length indx = N" "\<forall>j < N. indx ! j < L" by blast
  from cocycle_matrix_ok[OF assms(3)] obtain signs where
    signs: "cocycle_matrix L c = Inr signs" "sign_matrix L signs" by blast
  let ?varphi = "partition_of_unity dld r"
  let ?cm0 = "map (map np_sqrt) (np_T ?varphi)"
  have nc: "ncols ?varphi = N"
    using ncols_matrix[OF partition_of_unity_matrix[OF assms(1,2)] assms(2)] .
  have len0: "length ?cm0 = N" using nc by (simp add: np_T_length)
  have lens: "length signs = L" using signs(2) by (simp add: sign_matrix_def is_matrix_def)
  from sign_loop[OF len0 indx(2), of signs] indx(3) lens obtain t where
    t: "for_range [0..<N] (sign_row signs indx) ?cm0 = Inr t" "length t = N"
       "\<forall>i < N. t ! i = map2 (\<lambda>v s. np_mul v (Some s)) (?cm0 ! i) (signs ! (indx ! i))"
    by auto
  have "\<forall>i < N. ?cm0 ! i = map np_sqrt (column ?varphi i)"
    using nc by (simp add: np_T_length np_T_nth)
  with t(3) have rows: "\<forall>i < N. t ! i = map2 (\<lambda>v s. np_mul v (Some s))
                                   (map np_sqrt (column ?varphi i)) (signs ! (indx ! i))"
    by simp
  have "classifying_map N L c dld r = Inr t"
    using indx(1) signs(1) t(1) by (simp add: classifying_map_def Let_def)
  then show ?thesis using t(2) signs(2) indx(3) rows by blast
qed


lemmas pou_eval = partition_of_unity_def bumps_def column_sums_def ncols_def column_def Let_def
lemmas cmap_eval = classifying_map_def ball_indx_def balls_def cocycle_matrix_def sign_row_def np_T_def

lemma upt5: "[0..<5] = [0, 1, 2, 3, 4]" by (simp add: upt_rec)
lemma upt4: "[0..<4] = [0, 1, 2, 3]" by (simp add: upt_rec)
lemma upt2: "[0..<2] = [0, 1]" by (simp add: upt_rec)

lemma ex_pou_zero: "partition_of_unity [[0, 1], [1, 0]] 0 = [[None, None], [None, None]]"
  by (simp add: pou_eval upt2)

lemma ex_cmap_zero: "classifying_map 2 2 [] [[0, 1], [1, 0]] 0 = Inr [[None, None], [None, None]]"
  by (simp add: pou_eval cmap_eval upt2 eval_nat_numeral)


lemma ring5_radius_perc0:
  "dreimac_ProjCoords_radius [(1, 2)] [[(0, 1, 1)]] [0] ring5_land_data 0
     = Inr \<lparr>rr_dgm1 = [(1/2, 1)], rr_idx_p1 = [0], rr_cocycle = [(0, 1, 1)],
            rr_cohomdeath = 1/2, rr_cohombirth = 1, rr_coverage = 0, rr_r_cover = 1/2\<rparr>"
  by (simp add: dreimac_ProjCoords_radius_def select_class_def py_index_def np_argsort_def
        add_cocycles_def ring5_coverage Let_def)

lemma ring5_pou: "partition_of_unity ring5_land_data (1/2) =
   [[Some 1, Some 0, Some 0, Some 0, None],
    [Some 0, Some 0, Some 1, Some 0, None],
    [Some 0, Some 1, Some 0, Some 0, None],
    [Some 0, Some 0, Some 0, Some 1, None]]"
  by (simp add: pou_eval upt5 ring5_land_data_def)

lemma ring5_cmap: "classifying_map 5 4 [(0, 1, 1)] ring5_land_data (1/2) =
   Inr [[Some 1, Some 0, Some 0, Some 0],
        [Some 0, Some 0, Some 1, Some 0],
        [Some 0, Some 1, Some 0, Some 0],
        [Some 0, Some 0, Some 0, Some 1],
        [None, None, None, None]]"
  unfolding classifying_map_def ring5_pou
  by (simp add: ball_indx_def balls_def cocycle_matrix_def sign_row_def np_T_def ncols_def column_def
       upt5 upt4 ring5_land_data_def eval_nat_numeral)



lemma sign_row_entries:
  assumes "sign_matrix L signs" "k < L"
  shows "length (signs ! k) = L \<and> (\<forall>s \<in> set (signs ! k). s = 1 \<or> s = - 1)"
proof -
  have len: "length (signs ! k) = L"
    using assms is_matrix_nth[of L L signs k] by (simp add: sign_matrix_def)
  have "\<forall>s \<in> set (signs ! k). s = 1 \<or> s = - 1"
  proof
    fix s assume "s \<in> set (signs ! k)"
    then obtain b where b: "b < L" "s = signs ! k ! b" using len by (auto simp: in_set_conv_nth)
    have "\<forall>a < L. \<forall>b < L. signs ! a ! b = 1 \<or> signs ! a ! b = - 1"
      using assms(1) by (simp add: sign_matrix_def)
    then show "s = 1 \<or> s = - 1" using assms(2) b by blast
  qed
  with len show ?thesis by simp
qed




lemma nan_row:
  assumes "length ss = L"
  shows "map2 (\<lambda>v s. np_mul v (Some s)) (map np_sqrt (replicate L None)) ss = replicate L None"
  using assms by (intro nth_equalityI) auto

text \<open>
  Claim C7, as the code has it.  There is no coverage check: when no landmark ball
  contains data point \<open>j\<close>, steps 4 and 5 still return without an error, the column of
  \<open>j\<close> in \<open>varphi\<close> is \<open>0/0\<close> in every entry and so is the row of \<open>j\<close> in the
  classifying map that is handed to \<open>PPCA\<close>.
\<close>

theorem uncovered_point_gives_nan:
  "is_matrix L N dld \<and> 1 \<le> L \<and> list_all (\<lambda>(a, b, v). a < L \<and> b < L) c \<and> j < N
     \<and> \<not> (\<exists>l < L. dld ! l ! j < r) \<longrightarrow>
     column (partition_of_unity dld r) j = replicate L None
     \<and> (\<exists>cm. classifying_map N L c dld r = Inr cm \<and> length cm = N \<and> cm ! j = replicate L None)"
proof
  assume a: "is_matrix L N dld \<and> 1 \<le> L \<and> list_all (\<lambda>(a, b, v). a < L \<and> b < L) c \<and> j < N
     \<and> \<not> (\<exists>l < L. dld ! l ! j < r)"
  then have m: "is_matrix L N dld" and j: "j < N" and un: "\<forall>l < L. \<not> dld ! l ! j < r" by auto
  have col: "column (partition_of_unity dld r) j = replicate L None"
    by (rule uncovered_column[OF m j un])
  from a classifying_map_rows[of L N dld c r] obtain cm signs indx where
    cm: "classifying_map N L c dld r = Inr cm" "length cm = N" "sign_matrix L signs"
        "\<forall>j < N. indx ! j < L"
        "\<forall>i < N. cm ! i = map2 (\<lambda>v s. np_mul v (Some s))
                                   (map np_sqrt (column (partition_of_unity dld r) i))
                                   (signs ! (indx ! i))"
    by blast
  have "length (signs ! (indx ! j)) = L" using sign_row_entries[OF cm(3)] cm(4) j by auto
  then have "cm ! j = replicate L None"
    using cm(5) j col nan_row[of "signs ! (indx ! j)" L] by simp
  with cm(1,2) col show "column (partition_of_unity dld r) j = replicate L None
     \<and> (\<exists>cm. classifying_map N L c dld r = Inr cm \<and> length cm = N \<and> cm ! j = replicate L None)"
    by blast
qed

theorem uncovered_point_gives_nan_witness:
  "is_matrix 4 5 ring5_land_data \<and> (1::nat) \<le> 4
   \<and> list_all (\<lambda>(a, b, v). a < 4 \<and> b < 4) [(0::nat, 1::nat, 1::int)] \<and> (4::nat) < 5
   \<and> column (partition_of_unity ring5_land_data (1/2)) 4 = replicate 4 None
   \<and> (\<exists>cm. classifying_map 5 4 [(0, 1, 1)] ring5_land_data (1/2) = Inr cm \<and> length cm = 5
           \<and> cm ! 4 = replicate 4 None)"
proof -
  have hyp: "is_matrix 4 5 ring5_land_data \<and> (1::nat) \<le> 4
      \<and> list_all (\<lambda>(a, b, v). a < 4 \<and> b < 4) [(0::nat, 1::nat, 1::int)] \<and> (4::nat) < 5"
    by (simp add: is_matrix_def ring5_land_data_def)
  have un: "\<not> (\<exists>l < 4. ring5_land_data ! l ! 4 < 1/2)"
  proof
    assume "\<exists>l < 4. ring5_land_data ! l ! 4 < 1/2"
    then obtain l :: nat where l: "l < 4" "ring5_land_data ! l ! 4 < 1/2" by blast
    then have "l = 0 \<or> l = 1 \<or> l = 2 \<or> l = 3" by arith
    with l(2) show False by (auto simp: ring5_land_data_def)
  qed
  from uncovered_point_gives_nan[of 4 5 ring5_land_data "[(0, 1, 1)]" 4 "1/2"] hyp un
  show ?thesis by blast
qed

theorem uncovered_point_counterexample:
  "classifying_map 2 2 [] [[0, 1], [1, 0]] 0 = Inr [[None, None], [None, None]]
   \<and> dreimac_ProjCoords_radius [(1, 2)] [[(0, 1, 1)]] [0] ring5_land_data 0
     = Inr \<lparr>rr_dgm1 = [(1/2, 1)], rr_idx_p1 = [0], rr_cocycle = [(0, 1, 1)],
            rr_cohomdeath = 1/2, rr_cohombirth = 1, rr_coverage = 0, rr_r_cover = 1/2\<rparr>
   \<and> classifying_map 5 4 [(0, 1, 1)] ring5_land_data (1/2) =
       Inr [[Some 1, Some 0, Some 0, Some 0],
            [Some 0, Some 0, Some 1, Some 0],
            [Some 0, Some 1, Some 0, Some 0],
            [Some 0, Some 0, Some 0, Some 1],
            [None, None, None, None]]"
  using ex_cmap_zero ring5_radius_perc0 ring5_cmap by simp

section \<open>Properties of the projective reduction\<close>

lemma np_sum_Some: "np_sum (map Some xs) = Some (sum_list xs)"
  by (induction xs) (auto simp: np_sum_def)

lemma np_dot_Some: "np_dot (map Some a) (map Some b) = Some (dot a b)"
proof -
  have "map2 np_mul (map Some a) (map Some b) = map Some (map2 (*) a b)"
    by (induction a arbitrary: b) (auto simp: zip_Cons1 split: list.splits)
  then show ?thesis by (simp only: np_dot_def dot_def np_sum_Some)
qed













lemma renorm_finite:
  "renorm (Some v) (Some y) = (if \<bar>y\<bar> < 1 then Some (v / sqrt (1 - y\<^sup>2)) else None)"
proof (cases "\<bar>y\<bar> < 1")
  case True
  then have "y\<^sup>2 < 1" by (simp add: abs_square_less_1)
  then show ?thesis using True by (simp add: renorm_def power2_eq_square)
next
  case False
  then have "1 \<le> y\<^sup>2" by (metis abs_square_less_1 not_less)
  then have "1 - \<bar>y\<bar> * \<bar>y\<bar> < 0 \<or> 1 - \<bar>y\<bar> * \<bar>y\<bar> = 0"
    by (auto simp: power2_eq_square)
  then show ?thesis using False by (auto simp: renorm_def)
qed



lemma column_rev:
  assumes "is_matrix d d U" "r < d"
  shows "column (map rev U) r = column U (d - 1 - r)"
proof -
  have "\<forall>row \<in> set U. length row = d" using assms(1) by (simp add: is_matrix_def list_all_iff)
  then have "\<forall>row \<in> set U. rev row ! r = row ! (d - 1 - r)"
    using assms(2) by (simp add: rev_nth)
  then show ?thesis by (simp add: column_def)
qed

lemma PPCA_step_entries:
  assumes X: "is_matrix d N X" and d: "2 \<le> d"
    and e: "eigh (map (\<lambda>a. map (np_dot a) X) X) = Inr U0" and U0: "is_matrix d d U0"
  shows "\<exists>v X'. PPCA_step eigh X = Inr (v, X') \<and> is_matrix (d - 1) N X'
           \<and> (\<forall>r < d - 1. \<forall>k < N. X' ! r ! k =
                 renorm (np_dot (column U0 (d - 1 - r)) (column X k))
                        (np_dot (column U0 0) (column X k)))"
proof -
  let ?U = "map rev U0"
  let ?cols = "np_T X"
  let ?Y = "map (\<lambda>ucol. map (np_dot ucol) ?cols) (np_T ?U)"
  let ?X' = "map (\<lambda>row. map2 renorm row (last ?Y)) (butlast ?Y)"
  have d1: "1 \<le> d" using d by simp
  have Um: "is_matrix d d ?U" using U0 by (simp add: is_matrix_def list_all_iff)
  have ncU: "ncols ?U = d" by (rule ncols_matrix[OF Um d1])
  have ncX: "ncols X = N" by (rule ncols_matrix[OF X d1])
  have lenY: "length ?Y = d" using ncU by (simp add: np_T_length)
  have lencols: "length ?cols = N" using ncX by (simp add: np_T_length)
  have Yr: "?Y ! r = map (np_dot (column ?U r)) ?cols" if "r < d" for r
    using that ncU by (simp add: np_T_length np_T_nth)
  have Yne: "?Y \<noteq> []" using lenY d1 by auto
  have last: "last ?Y = ?Y ! (d - 1)" using last_conv_nth[OF Yne] lenY by simp
  have Xne: "X \<noteq> []" using X d1 by (auto simp: is_matrix_def)
  obtain v where step: "PPCA_step eigh X = Inr (v, ?X')"
    using e U0 Xne is_matrix_length[OF X] by (simp add: PPCA_step_def Let_def)
  have leny: "length (last ?Y) = N" using last Yr[of "d - 1"] d1 lencols by simp
  have shape: "is_matrix (d - 1) N ?X'"
  proof -
    have "\<forall>row \<in> set (butlast ?Y). length row = N"
    proof
      fix row assume "row \<in> set (butlast ?Y)"
      then have "row \<in> set ?Y" by (rule in_set_butlastD)
      then show "length row = N" using lencols by auto
    qed
    then show ?thesis using lenY leny by (simp add: is_matrix_def list_all_iff)
  qed
  have entries: "\<forall>r < d - 1. \<forall>k < N. ?X' ! r ! k =
                 renorm (np_dot (column U0 (d - 1 - r)) (column X k))
                        (np_dot (column U0 0) (column X k))"
  proof (intro allI impI)
    fix r k assume r: "r < d - 1" and k: "k < N"
    have rd: "r < d" using r by simp
    have "butlast ?Y ! r = ?Y ! r" using r lenY by (simp add: nth_butlast)
    then have row: "?X' ! r = map2 renorm (?Y ! r) (last ?Y)" using r lenY by simp
    have ck: "?cols ! k = column X k" using k ncX by (simp add: np_T_nth)
    have a: "?Y ! r ! k = np_dot (column ?U r) (column X k)"
      using Yr[OF rd] k lencols ck by simp
    have b: "last ?Y ! k = np_dot (column ?U (d - 1)) (column X k)"
      using last Yr[of "d - 1"] d1 k lencols ck by simp
    have "?X' ! r ! k = renorm (?Y ! r ! k) (last ?Y ! k)"
      using row Yr[OF rd] leny k lencols by simp
    then show "?X' ! r ! k = renorm (np_dot (column U0 (d - 1 - r)) (column X k))
                        (np_dot (column U0 0) (column X k))"
      using a b column_rev[OF U0 rd] column_rev[OF U0, of "d - 1"] d1 by simp
  qed
  show ?thesis using step shape entries by blast
qed

lemma column_Some:
  assumes "is_matrix r c A" "j < c"
  shows "column (map (map Some) A) j = map Some (column A j)"
proof -
  have "\<forall>row \<in> set A. map Some row ! j = Some (row ! j)"
    using assms by (auto simp: is_matrix_def list_all_iff)
  then show ?thesis by (simp add: column_def)
qed

lemma matrix_Some: "is_matrix r c A \<Longrightarrow> is_matrix r c (map (map Some) A)"
  by (simp add: is_matrix_def list_all_iff)


lemma PPCA_step_finite:
  assumes Xr: "is_matrix d N Xr" and d: "2 \<le> d"
    and e: "eigh (map (\<lambda>a. map (np_dot a) (map (map Some) Xr)) (map (map Some) Xr))
              = Inr (map (map Some) Ur)"
    and Ur: "is_matrix d d Ur"
  shows "\<exists>v X'. PPCA_step eigh (map (map Some) Xr) = Inr (v, X') \<and> is_matrix (d - 1) N X'
           \<and> (\<forall>r < d - 1. \<forall>k < N. X' ! r ! k =
                 (let y = dot (column Ur 0) (column Xr k)
                  in if \<bar>y\<bar> < 1
                     then Some (dot (column Ur (d - 1 - r)) (column Xr k) / sqrt (1 - y\<^sup>2))
                     else None))"
proof -
  from PPCA_step_entries[where eigh = eigh, OF matrix_Some[OF Xr] d e matrix_Some[OF Ur]] obtain v X' where
    s: "PPCA_step eigh (map (map Some) Xr) = Inr (v, X')" "is_matrix (d - 1) N X'"
       "\<forall>r < d - 1. \<forall>k < N. X' ! r ! k =
                 renorm (np_dot (column (map (map Some) Ur) (d - 1 - r)) (column (map (map Some) Xr) k))
                        (np_dot (column (map (map Some) Ur) 0) (column (map (map Some) Xr) k))"
    by blast
  have "\<forall>r < d - 1. \<forall>k < N. X' ! r ! k =
                 (let y = dot (column Ur 0) (column Xr k)
                  in if \<bar>y\<bar> < 1
                     then Some (dot (column Ur (d - 1 - r)) (column Xr k) / sqrt (1 - y\<^sup>2))
                     else None)"
  proof (intro allI impI)
    fix r k assume r: "r < d - 1" and k: "k < N"
    have c1: "column (map (map Some) Ur) (d - 1 - r) = map Some (column Ur (d - 1 - r))"
      using column_Some[OF Ur, of "d - 1 - r"] r by simp
    have c0: "column (map (map Some) Ur) 0 = map Some (column Ur 0)"
      using column_Some[OF Ur, of 0] d by simp
    have cx: "column (map (map Some) Xr) k = map Some (column Xr k)"
      using column_Some[OF Xr k] .
    show "X' ! r ! k =
                 (let y = dot (column Ur 0) (column Xr k)
                  in if \<bar>y\<bar> < 1
                     then Some (dot (column Ur (d - 1 - r)) (column Xr k) / sqrt (1 - y\<^sup>2))
                     else None)"
    proof -
      have "X' ! r ! k =
          renorm (np_dot (column (map (map Some) Ur) (d - 1 - r)) (column (map (map Some) Xr) k))
                 (np_dot (column (map (map Some) Ur) 0) (column (map (map Some) Xr) k))"
        using s(3) r k by blast
      also have "\<dots> = renorm (Some (dot (column Ur (d - 1 - r)) (column Xr k)))
                               (Some (dot (column Ur 0) (column Xr k)))"
        by (simp only: c1 c0 cx np_dot_Some)
      finally show ?thesis by (simp only: renorm_finite Let_def)
    qed
  qed
  with s(1,2) show ?thesis by blast
qed


lemma eigh_eye2: "eigh_eye eye2 = Inr eye2"
  by (simp add: eigh_eye_def eye_def eye2_def upt2)

lemma upt1: "[0..<1] = [0]" by (simp add: upt_rec)

lemma np_T_eye2: "np_T eye2 = eye2"
  by (simp add: np_T_def eye2_def ncols_def column_def upt2)

lemma gram_eye2: "map (\<lambda>a. map (np_dot a) eye2) eye2 = eye2"
  by (simp add: eye2_def np_dot_def np_sum_def)

lemma ncols_eye2: "ncols eye2 = 2"
  by (simp add: eye2_def ncols_def)

lemma step_eye2: "PPCA_step eigh_eye eye2 = Inr (Some (pi\<^sup>2 / 8), [[None, Some 1]])"
  unfolding PPCA_step_def gram_eye2 eigh_eye2
  by (simp add: eye2_def is_matrix_def np_T_def ncols_def column_def upt2 np_dot_def np_sum_def
        np_mean_def renorm_def power2_eq_square)



lemma ex_ppca_root:
  "PPCA eigh_eye eye2 1
     = Inr \<lparr>res_variance = [Some (pi\<^sup>2 / 8)], res_X = eye2, res_Z = [[None, Some 1]]\<rparr>"
  unfolding PPCA_def np_T_eye2 ncols_eye2
  by (simp add: PPCA_coords_body_def step_eye2 upt1 Let_def)











lemma eye_matrix: "is_matrix n n (eye n)"
  by (simp add: eye_def is_matrix_def list_all_iff)














text \<open>
  Claim C8, as the code has it.  In a pass on a finite working matrix, with a finite
  matrix from \<open>eigh\<close>, entry \<open>(r, k)\<close> of the new working matrix is the coordinate
  divided by \<open>sqrt(1 - y\<^sup>2)\<close> when the dropped coordinate \<open>y\<close> of column \<open>k\<close> has
  absolute value below 1, and is not a finite number otherwise: nothing is clamped.
\<close>

theorem renorm_no_clamp:
  "is_matrix d N Xr \<and> 2 \<le> d \<and> is_matrix d d Ur
     \<and> eigh (map (\<lambda>a. map (np_dot a) (map (map Some) Xr)) (map (map Some) Xr))
         = Inr (map (map Some) Ur)
     \<and> r < d - 1 \<and> k < N \<longrightarrow>
   (\<exists>v X'. PPCA_step eigh (map (map Some) Xr) = Inr (v, X')
      \<and> X' ! r ! k =
          (let y = dot (column Ur 0) (column Xr k)
           in if \<bar>y\<bar> < 1
              then Some (dot (column Ur (d - 1 - r)) (column Xr k) / sqrt (1 - y\<^sup>2))
              else None))"
proof
  assume a: "is_matrix d N Xr \<and> 2 \<le> d \<and> is_matrix d d Ur
     \<and> eigh (map (\<lambda>a. map (np_dot a) (map (map Some) Xr)) (map (map Some) Xr))
         = Inr (map (map Some) Ur)
     \<and> r < d - 1 \<and> k < N"
  then have Xr: "is_matrix d N Xr" and d: "2 \<le> d" and Ur: "is_matrix d d Ur"
    and e: "eigh (map (\<lambda>a. map (np_dot a) (map (map Some) Xr)) (map (map Some) Xr))
         = Inr (map (map Some) Ur)"
    and rk: "r < d - 1" "k < N" by auto
  from PPCA_step_finite[where eigh = eigh, OF Xr d e Ur] rk
  show "\<exists>v X'. PPCA_step eigh (map (map Some) Xr) = Inr (v, X')
      \<and> X' ! r ! k =
          (let y = dot (column Ur 0) (column Xr k)
           in if \<bar>y\<bar> < 1
              then Some (dot (column Ur (d - 1 - r)) (column Xr k) / sqrt (1 - y\<^sup>2))
              else None)"
    by blast
qed

theorem renorm_no_clamp_witness:
  "is_matrix 2 1 [[3/5], [4/5 :: real]] \<and> (2::nat) \<le> 2 \<and> is_matrix 2 2 (eye 2)
   \<and> eigh_eye (map (\<lambda>a. map (np_dot a) (map (map Some) [[3/5], [4/5]]))
                    (map (map Some) [[3/5], [4/5]]))
        = Inr (map (map Some) (eye 2))
   \<and> (0::nat) < 2 - 1 \<and> (0::nat) < 1
   \<and> (\<exists>v X'. PPCA_step eigh_eye (map (map Some) [[3/5], [4/5]]) = Inr (v, X')
         \<and> X' ! 0 ! 0 = Some (4/5 / sqrt (1 - (3/5)\<^sup>2)))"
proof -
  have h: "is_matrix 2 1 [[3/5], [4/5 :: real]] \<and> (2::nat) \<le> 2 \<and> is_matrix 2 2 (eye 2)
   \<and> eigh_eye (map (\<lambda>a. map (np_dot a) (map (map Some) [[3/5], [4/5]]))
                    (map (map Some) [[3/5], [4/5]]))
        = Inr (map (map Some) (eye 2))
   \<and> (0::nat) < 2 - 1 \<and> (0::nat) < 1"
  proof -
    have "length (map (\<lambda>a. map (np_dot a) (map (map Some) [[3/5], [4/5 :: real]]))
                    (map (map Some) [[3/5], [4/5]])) = 2" by simp
    then have "eigh_eye (map (\<lambda>a. map (np_dot a) (map (map Some) [[3/5], [4/5]]))
                    (map (map Some) [[3/5], [4/5]])) = Inr (map (map Some) (eye 2))"
      unfolding eigh_eye_def by (simp only:)
    then show ?thesis using eye_matrix[of 2] by (simp add: is_matrix_def)
  qed
  have y: "dot (column (eye 2) 0) (column [[3/5], [4/5 :: real]] 0) = 3/5"
    by (simp add: eye_def column_def dot_def upt2)
  have w: "dot (column (eye 2) (2 - 1 - 0)) (column [[3/5], [4/5 :: real]] 0) = 4/5"
    by (simp add: eye_def column_def dot_def upt2)
  from renorm_no_clamp[of 2 1 "[[3/5], [4/5]]" "eye 2" eigh_eye 0 0] h
  obtain v X' where s: "PPCA_step eigh_eye (map (map Some) [[3/5], [4/5]]) = Inr (v, X')"
    "X' ! 0 ! 0 =
          (let y = dot (column (eye 2) 0) (column [[3/5], [4/5 :: real]] 0)
           in if \<bar>y\<bar> < 1
              then Some (dot (column (eye 2) (2 - 1 - 0)) (column [[3/5], [4/5]] 0) / sqrt (1 - y\<^sup>2))
              else None)"
    by blast
  have "X' ! 0 ! 0 = Some (4/5 / sqrt (1 - (3/5)\<^sup>2))"
    unfolding s(2) y w Let_def by simp
  with s(1) h show ?thesis by blast
qed

theorem renorm_counterexample:
  "PPCA_step eigh_eye eye2 = Inr (Some (pi\<^sup>2 / 8), [[None, Some 1]])
   \<and> renorm (Some 0) (Some 1) = None
   \<and> renorm (Some 1) (Some 2) = None"
  using step_eye2 by (simp add: renorm_def)

end
